theory Spec2Isabelle
  imports Main
begin

section \<open>Nested values and the host engine's column operations\<close>

text \<open>
  The source (\<^verbatim>\<open>src/udf.py\<close>) builds PySpark column expressions with
  \<^verbatim>\<open>getField\<close>, \<^verbatim>\<open>withField\<close>, \<^verbatim>\<open>F.transform\<close>, \<^verbatim>\<open>F.coalesce\<close> and \<^verbatim>\<open>cast\<close>.
  These belong to the host engine and are not part of the repository. They are modelled
  here on the values one row holds, following sections 3, 6, 7 and 9 of the specification:
  a value is a struct (ordered fields), an array or a primitive carrying its declared type
  tag; a failure of the host engine is an error value.
\<close>

datatype scalar = SInt int | SStr string

datatype val =
    Null string
  | Prim string scalar
  | Struct "(string \<times> val) list"
  | Array "val list"

datatype error = PathNotFound | TypeMismatch | IndexError

fun is_null :: "val \<Rightarrow> bool" where
  "is_null (Null t) = True"
| "is_null v = False"

text \<open>Sequencing of fallible steps: the first error ends the computation.\<close>

fun and_then :: "error + 'a \<Rightarrow> ('a \<Rightarrow> error + 'b) \<Rightarrow> error + 'b" where
  "and_then (Inl e) f = Inl e"
| "and_then (Inr x) f = f x"

text \<open>
  Modelled from the spec: \<^verbatim>\<open>Column.getField\<close> of the host engine. Section 9: a total
  function on the Struct variant that fails with TypeMismatch on a non-struct; section 7:
  a name that is not a field of the struct is PathNotFound.
\<close>

fun getField :: "val \<Rightarrow> string \<Rightarrow> error + val" where
  "getField (Struct fs) f =
     (case map_of fs f of None \<Rightarrow> Inl PathNotFound | Some v \<Rightarrow> Inr v)"
| "getField v f = Inl TypeMismatch"

text \<open>
  Modelled from the spec: \<^verbatim>\<open>Column.withField\<close> of the host engine. Section 3: replacing
  field \<open>f\<close> with \<open>v\<close> yields a struct identical to the original except that \<open>f\<close> now maps
  to \<open>v\<close>; a field that did not exist is appended. Section 9: TypeMismatch on a non-struct.
  \<open>replace_field\<close> is the replacement on the list of fields.
\<close>

fun replace_field :: "string \<Rightarrow> val \<Rightarrow> (string \<times> val) list \<Rightarrow> (string \<times> val) list" where
  "replace_field f v [] = []"
| "replace_field f v ((k, x) # fs) =
     (if k = f then (k, v) else (k, x)) # replace_field f v fs"

fun withField :: "val \<Rightarrow> string \<Rightarrow> val \<Rightarrow> error + val" where
  "withField (Struct fs) f v =
     (if f \<in> set (map fst fs) then Inr (Struct (replace_field f v fs))
      else Inr (Struct (fs @ [(f, v)])))"
| "withField c f v = Inl TypeMismatch"

text \<open>
  Modelled from the spec: \<^verbatim>\<open>F.transform\<close> of the host engine (section 6: map a function
  over every element of an array, returning a new array; section 7: TypeMismatch when the
  value is not array-shaped). The function applied to an element may fail, and then the
  whole map fails; \<open>map_result\<close> is that map on lists.
\<close>

fun map_result :: "('a \<Rightarrow> error + 'b) \<Rightarrow> 'a list \<Rightarrow> error + 'b list" where
  "map_result g [] = Inr []"
| "map_result g (x # xs) =
     and_then (g x) (\<lambda>y. and_then (map_result g xs) (\<lambda>ys. Inr (y # ys)))"

fun transform :: "val \<Rightarrow> (val \<Rightarrow> error + val) \<Rightarrow> error + val" where
  "transform (Array xs) g = and_then (map_result g xs) (\<lambda>ys. Inr (Array ys))"
| "transform v g = Inl TypeMismatch"

text \<open>
  Modelled from the spec: \<^verbatim>\<open>F.coalesce\<close> of the host engine (section 4.4: the first
  value, in the given order, that is non-null; null when every value is null). The null
  of an all-null list is the first value, as the host engine types a coalesce by its first
  argument. The host engine rejects a coalesce of no columns.
\<close>

fun coalesce :: "val list \<Rightarrow> error + val" where
  "coalesce [] = Inl TypeMismatch"
| "coalesce (v # vs) =
     (case find (\<lambda>x. \<not> is_null x) (v # vs) of Some x \<Rightarrow> Inr x | None \<Rightarrow> Inr v)"

text \<open>
  Modelled from the spec: \<^verbatim>\<open>Column.cast\<close> of the host engine. Section 3: a primitive
  carries its declared type tag; section 4.4: the cast value is typed as the target, and a
  null stays null, typed as the target. How the host engine converts the payload of a
  scalar is not fixed by the specification: it is the parameter \<open>conv\<close> (target tag and
  payload to payload). The coalescer's contract returns a primitive, so a struct or an
  array is a TypeMismatch.
\<close>

fun cast :: "(string \<Rightarrow> scalar \<Rightarrow> scalar) \<Rightarrow> string \<Rightarrow> val \<Rightarrow> error + val" where
  "cast conv t (Null u) = Inr (Null t)"
| "cast conv t (Prim u s) = Inr (Prim t (conv t s))"
| "cast conv t v = Inl TypeMismatch"

section \<open>Python's string operations\<close>

text \<open>
  \<^verbatim>\<open>s.split(".")\<close>: the pieces of \<open>s\<close> between dots. The result is never empty
  (\<^verbatim>\<open>"".split(".")\<close> is \<^verbatim>\<open>[""]\<close>), so the source's \<^verbatim>\<open>[0]\<close> never raises and
  \<open>hd\<close> below is always taken of a non-empty list.
\<close>

fun split_dot :: "string \<Rightarrow> string list" where
  "split_dot [] = [[]]"
| "split_dot (c # cs) =
     (if c = CHR ''.'' then [] # split_dot cs
      else (c # hd (split_dot cs)) # tl (split_dot cs))"

text \<open>\<^verbatim>\<open>".".join(xs)\<close>.\<close>

fun join_dot :: "string list \<Rightarrow> string" where
  "join_dot [] = []"
| "join_dot [x] = x"
| "join_dot (x # y # ys) = x @ CHR ''.'' # join_dot (y # ys)"

text \<open>Python's truth value of an \<^verbatim>\<open>Optional[str]\<close>: neither \<^verbatim>\<open>None\<close> nor \<^verbatim>\<open>""\<close>.\<close>

fun truthy :: "string option \<Rightarrow> bool" where
  "truthy None = False"
| "truthy (Some s) = (s \<noteq> [])"

lemma split_dot_not_Nil [simp]: "split_dot s \<noteq> []"
  by (induction s) auto

lemma join_dot_Cons:
  "join_dot (x # xs) = (if xs = [] then x else x @ CHR ''.'' # join_dot xs)"
  by (cases xs) auto

lemma join_split_dot [simp]: "join_dot (split_dot s) = s"
proof (induction s)
  case Nil
  show ?case by simp
next
  case (Cons c cs)
  obtain w ws where sp: "split_dot cs = w # ws"
    by (cases "split_dot cs") auto
  with Cons show ?case
    by (cases ws) auto
qed

lemma length_join_tl_split:
  assumes "tl (split_dot s) \<noteq> []"
  shows "length (join_dot (tl (split_dot s))) < length s"
proof -
  obtain w ws where sp: "split_dot s = w # ws"
    by (cases "split_dot s") auto
  with assms have "ws \<noteq> []" by simp
  have "length s = length (join_dot (w # ws))"
    using sp join_split_dot [of s] by simp
  also have "\<dots> = length w + 1 + length (join_dot ws)"
    using \<open>ws \<noteq> []\<close> by (simp add: join_dot_Cons)
  finally show ?thesis using sp by simp
qed

lemma length_join_tl_split':
  "Suc 0 < length (split_dot s) \<Longrightarrow> length (join_dot (tl (split_dot s))) < length s"
  by (rule length_join_tl_split) (cases "split_dot s", auto)

lemma hd_split_nonempty: "hd (split_dot s) \<noteq> [] \<Longrightarrow> s \<noteq> []"
  by (cases s) auto

section \<open>The source functions\<close>

text \<open>
  A leaf transform \<^verbatim>\<open>struct_func(col, remaining, *args, **kwargs)\<close>: the extra arguments
  are passed through unchanged by \<^verbatim>\<open>update_struct\<close> and are one value of type \<open>'x\<close>.
\<close>

type_synonym 'x leaf = "val \<Rightarrow> string \<Rightarrow> 'x \<Rightarrow> error + val"

text \<open>
  \<^verbatim>\<open>group_to_primitive(col, remaining, *types)\<close>: the list comprehension reads the
  field of every type tag, so every one of them has to exist; \<^verbatim>\<open>F.lit\<close> of a column is
  that column; \<^verbatim>\<open>types[0]\<close> raises IndexError when no type tag is given.
\<close>

definition group_to_primitive ::
  "(string \<Rightarrow> scalar \<Rightarrow> scalar) \<Rightarrow> val \<Rightarrow> string \<Rightarrow> string list \<Rightarrow> error + val" where
  "group_to_primitive conv col remaining types =
     (if types = [] then Inl IndexError
      else and_then (map_result (getField col) types)
             (\<lambda>vs. and_then (coalesce vs) (cast conv (hd types))))"

text \<open>\<^verbatim>\<open>update_struct(col, remaining, struct_func, array_path=None, *args, **kwargs)\<close>.\<close>

function update_struct ::
  "val \<Rightarrow> string \<Rightarrow> 'x leaf \<Rightarrow> string option \<Rightarrow> 'x \<Rightarrow> error + val" where
  "update_struct col remaining struct_func array_path args =
     (let field_name = hd (split_dot remaining);
          remaining' = tl (split_dot remaining)
      in if length remaining' > 0 \<and> length field_name > 0 then
           and_then (getField col field_name)
             (\<lambda>sub. and_then
                (update_struct sub (join_dot remaining') struct_func array_path args)
                (withField col field_name))
         else if length remaining' = 0 \<and> length field_name > 0 \<and> truthy array_path then
           and_then (getField col field_name)
             (\<lambda>sub. and_then
                (update_struct sub [] struct_func array_path args)
                (withField col field_name))
         else
           (case array_path of
              Some ap \<Rightarrow>
                (let a_field_name = hd (split_dot ap);
                     a_remaining = join_dot (tl (split_dot ap))
                 in and_then (getField col a_field_name)
                      (\<lambda>arr. and_then
                         (transform arr (\<lambda>c. struct_func c a_remaining args))
                         (withField col a_field_name)))
            | None \<Rightarrow>
                and_then (getField col field_name)
                  (\<lambda>v. and_then (struct_func v field_name args)
                     (withField col field_name))))"
  by pat_completeness auto
termination
  by (relation "measure (\<lambda>(col, remaining, struct_func, array_path, args). length remaining)")
     (auto simp: length_join_tl_split' dest: hd_split_nonempty)

declare update_struct.simps [simp del]

text \<open>
  \<^verbatim>\<open>struct_repl(col, remaining, *args, **kwargs)\<close>: the extra arguments are the type
  tags handed on to \<^verbatim>\<open>group_to_primitive\<close>, which takes no keyword argument; the model
  is of the calls without keyword arguments.
\<close>

definition struct_repl ::
  "(string \<Rightarrow> scalar \<Rightarrow> scalar) \<Rightarrow> val \<Rightarrow> string \<Rightarrow> string list \<Rightarrow> error + val" where
  "struct_repl conv col remaining args =
     (let col_name = hd (split_dot remaining);
          remaining_fields = join_dot (tl (split_dot remaining))
      in and_then (getField col col_name)
           (\<lambda>sub. and_then
              (update_struct sub remaining_fields (group_to_primitive conv) None args)
              (withField col col_name)))"

section \<open>The addressed path\<close>

text \<open>
  Reading a nested value along a list of field names, and the list of field names that
  one call of \<^verbatim>\<open>update_struct\<close> replaces, level by level (the conditions are those of
  \<open>update_struct\<close>): they state what a traversal leaves untouched below the top level.
\<close>

fun get_path :: "val \<Rightarrow> string list \<Rightarrow> error + val" where
  "get_path v [] = Inr v"
| "get_path v (f # q) = and_then (getField v f) (\<lambda>sub. get_path sub q)"

function update_struct_target :: "string \<Rightarrow> string option \<Rightarrow> string list" where
  "update_struct_target remaining array_path =
     (let field_name = hd (split_dot remaining);
          remaining' = tl (split_dot remaining)
      in if length remaining' > 0 \<and> length field_name > 0 then
           field_name # update_struct_target (join_dot remaining') array_path
         else if length remaining' = 0 \<and> length field_name > 0 \<and> truthy array_path then
           field_name # update_struct_target [] array_path
         else
           (case array_path of
              Some ap \<Rightarrow> [hd (split_dot ap)]
            | None \<Rightarrow> [field_name]))"
  by pat_completeness auto
termination
  by (relation "measure (\<lambda>(remaining, array_path). length remaining)")
     (auto simp: length_join_tl_split' dest: hd_split_nonempty)

declare update_struct_target.simps [simp del]

text \<open>
  What a traversal does without the path string: rebuild the fields named by a list of
  segments around a step applied to the value they lead to, and the step at the end of
  the path (the broadcast over the array named by the array path or, with no array path,
  the leaf on the field named by the empty string). They state what \<^verbatim>\<open>update_struct\<close>
  computes on a path with an empty segment.
\<close>

fun descend_then :: "val \<Rightarrow> string list \<Rightarrow> (val \<Rightarrow> error + val) \<Rightarrow> error + val" where
  "descend_then col [] k = k col"
| "descend_then col (s # pre) k =
     and_then (getField col s) (\<lambda>sub. and_then (descend_then sub pre k) (withField col s))"

definition end_of_path :: "'x leaf \<Rightarrow> string option \<Rightarrow> 'x \<Rightarrow> val \<Rightarrow> error + val" where
  "end_of_path leaf ap args c =
     (case ap of
        Some a \<Rightarrow>
          and_then (getField c (hd (split_dot a)))
            (\<lambda>arr. and_then
               (transform arr (\<lambda>x. leaf x (join_dot (tl (split_dot a))) args))
               (withField c (hd (split_dot a))))
      | None \<Rightarrow>
          and_then (getField c []) (\<lambda>v. and_then (leaf v [] args) (withField c [])))"

section \<open>The traversal on a bounded call stack\<close>

text \<open>
  To count the nested calls (stack frames) of \<^verbatim>\<open>update_struct\<close>, the same function is
  run with a budget of frames: every call of \<^verbatim>\<open>update_struct\<close> takes one frame from the
  budget and passes the rest to the calls it makes, and a call with no frame left does
  not return (\<open>None\<close>). The leaf is called inside the frame of the terminal state and may
  call \<^verbatim>\<open>update_struct\<close> again (\<^verbatim>\<open>struct_repl\<close> does), so it receives the budget that is
  left. The branches and the order of the steps are those of \<open>update_struct\<close>.
\<close>

type_synonym 'x leaf_fuel = "nat \<Rightarrow> val \<Rightarrow> string \<Rightarrow> 'x \<Rightarrow> (error + val) option"

fun then_fuel :: "(error + 'a) option \<Rightarrow> ('a \<Rightarrow> (error + 'b) option) \<Rightarrow> (error + 'b) option" where
  "then_fuel None f = None"
| "then_fuel (Some (Inl e)) f = Some (Inl e)"
| "then_fuel (Some (Inr x)) f = f x"

fun map_fuel :: "('a \<Rightarrow> (error + 'b) option) \<Rightarrow> 'a list \<Rightarrow> (error + 'b list) option" where
  "map_fuel g [] = Some (Inr [])"
| "map_fuel g (x # xs) =
     then_fuel (g x) (\<lambda>y. then_fuel (map_fuel g xs) (\<lambda>ys. Some (Inr (y # ys))))"

fun transform_fuel :: "val \<Rightarrow> (val \<Rightarrow> (error + val) option) \<Rightarrow> (error + val) option" where
  "transform_fuel (Array xs) g = then_fuel (map_fuel g xs) (\<lambda>ys. Some (Inr (Array ys)))"
| "transform_fuel v g = Some (Inl TypeMismatch)"

fun update_struct_fuel ::
  "nat \<Rightarrow> val \<Rightarrow> string \<Rightarrow> 'x leaf_fuel \<Rightarrow> string option \<Rightarrow> 'x \<Rightarrow> (error + val) option" where
  "update_struct_fuel 0 col remaining struct_func array_path args = None"
| "update_struct_fuel (Suc k) col remaining struct_func array_path args =
     (let field_name = hd (split_dot remaining);
          remaining' = tl (split_dot remaining)
      in if length remaining' > 0 \<and> length field_name > 0 then
           then_fuel (Some (getField col field_name))
             (\<lambda>sub. then_fuel
                (update_struct_fuel k sub (join_dot remaining') struct_func array_path args)
                (\<lambda>new. Some (withField col field_name new)))
         else if length remaining' = 0 \<and> length field_name > 0 \<and> truthy array_path then
           then_fuel (Some (getField col field_name))
             (\<lambda>sub. then_fuel
                (update_struct_fuel k sub [] struct_func array_path args)
                (\<lambda>new. Some (withField col field_name new)))
         else
           (case array_path of
              Some ap \<Rightarrow>
                (let a_field_name = hd (split_dot ap);
                     a_remaining = join_dot (tl (split_dot ap))
                 in then_fuel (Some (getField col a_field_name))
                      (\<lambda>arr. then_fuel
                         (transform_fuel arr (\<lambda>c. struct_func k c a_remaining args))
                         (\<lambda>new. Some (withField col a_field_name new))))
            | None \<Rightarrow>
                then_fuel (Some (getField col field_name))
                  (\<lambda>v. then_fuel (struct_func k v field_name args)
                     (\<lambda>new. Some (withField col field_name new)))))"

text \<open>
  \<^verbatim>\<open>group_to_primitive\<close> calls nothing of the repository, whatever the budget;
  \<^verbatim>\<open>struct_repl\<close> calls \<^verbatim>\<open>update_struct\<close> with the budget it is given.
\<close>

definition group_to_primitive_fuel ::
  "(string \<Rightarrow> scalar \<Rightarrow> scalar) \<Rightarrow> string list leaf_fuel" where
  "group_to_primitive_fuel conv k col remaining types =
     Some (group_to_primitive conv col remaining types)"

definition struct_repl_fuel ::
  "(string \<Rightarrow> scalar \<Rightarrow> scalar) \<Rightarrow> string list leaf_fuel" where
  "struct_repl_fuel conv k col remaining args =
     (let col_name = hd (split_dot remaining);
          remaining_fields = join_dot (tl (split_dot remaining))
      in then_fuel (Some (getField col col_name))
           (\<lambda>sub. then_fuel
              (update_struct_fuel k sub remaining_fields (group_to_primitive_fuel conv) None args)
              (\<lambda>new. Some (withField col col_name new))))"

section \<open>The end-to-end scenarios of the specification\<close>

text \<open>
  The values and leaf transforms of scenarios A and B (section 8 of the specification).
  The integers are primitives of declared type \<open>int\<close>; the leaves take no extra argument.
\<close>

definition int_val :: "int \<Rightarrow> val" where
  "int_val n = Prim ''int'' (SInt n)"

definition increment_by_one :: "unit leaf" where
  "increment_by_one v r args =
     (case v of Prim t (SInt n) \<Rightarrow> Inr (Prim t (SInt (n + 1))) | _ \<Rightarrow> Inl TypeMismatch)"

definition negate :: "unit leaf" where
  "negate v r args =
     (case v of Prim t (SInt n) \<Rightarrow> Inr (Prim t (SInt (- n))) | _ \<Rightarrow> Inl TypeMismatch)"

text \<open>
  The broadcast hands the leaf an array element and the rest of the array path; this
  leaf negates the field of the element that the sub-path names.
\<close>

definition negate_at :: "unit leaf" where
  "negate_at c r args =
     and_then (getField c r) (\<lambda>v. and_then (negate v r args) (withField c r))"

definition scenario_a_input :: val where
  "scenario_a_input =
     Struct [(''a'', Struct [(''b'', Struct [(''c'', int_val 1), (''d'', int_val 2)])])]"

definition scenario_a_output :: val where
  "scenario_a_output =
     Struct [(''a'', Struct [(''b'', Struct [(''c'', int_val 2), (''d'', int_val 2)])])]"

definition scenario_b_input :: val where
  "scenario_b_input =
     Struct [(''items'', Array [Struct [(''x'', int_val 1)], Struct [(''x'', int_val 2)]])]"

definition scenario_b_output :: val where
  "scenario_b_output =
     Struct [(''items'',
       Array [Struct [(''x'', int_val (- 1))], Struct [(''x'', int_val (- 2))]])]"

text \<open>
  A root with a sibling of the addressed field at two levels; a drift struct three fields
  below the elements of an array; an incrementing leaf that takes no frame.
\<close>

definition sibling_input :: val where
  "sibling_input =
     Struct [(''w'', Struct [(''items'', Array [Struct [(''x'', int_val 1)], Struct [(''x'', int_val 2)]]),
                             (''k'', int_val 7)]),
             (''items'', int_val 5)]"

definition sibling_output :: val where
  "sibling_output =
     Struct [(''w'', Struct [(''items'', Array [Struct [(''x'', int_val (- 1))],
                                                 Struct [(''x'', int_val (- 2))]]),
                             (''k'', int_val 7)]),
             (''items'', int_val 5)]"

definition nested_drift_input :: val where
  "nested_drift_input =
     Struct [(''items'', Array
       [Struct [(''a'', Struct [(''b'', Struct [(''value'',
          Struct [(''int'', Null ''int''), (''string'', Prim ''string'' (SStr ''x''))])])])]])]"

definition nested_drift_output :: val where
  "nested_drift_output =
     Struct [(''items'', Array
       [Struct [(''a'', Struct [(''b'', Struct [(''value'', Prim ''int'' (SStr ''x''))])])]])]"

definition flat_increment :: "unit leaf_fuel" where
  "flat_increment j c r a = Some (increment_by_one c r a)"

lemmas scenario_defs =
  int_val_def increment_by_one_def negate_def negate_at_def
  scenario_a_input_def scenario_a_output_def scenario_b_input_def scenario_b_output_def

section \<open>Basic facts about the column operations\<close>

lemma withField_existing:
  "map_of fs f = Some v \<Longrightarrow>
   withField (Struct fs) f w = Inr (Struct (replace_field f w fs))"
  by (auto dest: map_of_SomeD intro: rev_image_eqI)

lemma update_struct_empty_head:
  assumes "hd (split_dot r) = []"
  shows "update_struct col r leaf ap args = update_struct col [] leaf ap args"
  using assms
  by (simp add: update_struct.simps [of col r] update_struct.simps [of col "[]"])

lemma split_dot_dot_free: "s \<in> set (split_dot p) \<Longrightarrow> CHR ''.'' \<notin> set s"
proof (induction p arbitrary: s)
  case Nil
  then show ?case by simp
next
  case (Cons c cs)
  obtain w ws where sp: "split_dot cs = w # ws"
    by (cases "split_dot cs") auto
  with Cons show ?case
    by (auto split: if_splits)
qed

lemma split_dot_append:
  "CHR ''.'' \<notin> set s \<Longrightarrow> split_dot (s @ CHR ''.'' # rest) = s # split_dot rest"
  by (induction s) auto

lemma split_dot_dot_free_id: "CHR ''.'' \<notin> set s \<Longrightarrow> split_dot s = [s]"
  by (induction s) auto

lemma split_join_dot:
  "xs \<noteq> [] \<Longrightarrow> \<forall>s\<in>set xs. CHR ''.'' \<notin> set s \<Longrightarrow> split_dot (join_dot xs) = xs"
proof (induction xs rule: join_dot.induct)
  case 1
  then show ?case by simp
next
  case (2 x)
  then show ?case by (simp add: split_dot_dot_free_id)
next
  case (3 x y ys)
  then show ?case by (simp add: split_dot_append)
qed

lemma update_struct_descend:
  assumes "CHR ''.'' \<notin> set s" "s \<noteq> []"
  shows "update_struct col (s @ CHR ''.'' # rest) leaf ap args =
         and_then (getField col s)
           (\<lambda>sub. and_then (update_struct sub rest leaf ap args) (withField col s))"
  using assms
  by (simp add: update_struct.simps [of col "s @ CHR ''.'' # rest"] split_dot_append)

lemma update_struct_cut_at_empty:
  assumes "\<forall>s\<in>set pre. s \<noteq> [] \<and> CHR ''.'' \<notin> set s"
  shows "update_struct col (join_dot (pre @ [] # post)) leaf ap args =
         update_struct col (join_dot (pre @ [[]])) leaf ap args"
  using assms
proof (induction pre arbitrary: col)
  case Nil
  have "hd (split_dot (join_dot ([] # post))) = []"
    by (cases post) auto
  then have "update_struct col (join_dot ([] # post)) leaf ap args =
             update_struct col [] leaf ap args"
    by (rule update_struct_empty_head)
  then show ?case by simp
next
  case (Cons s pre)
  have a: "join_dot ((s # pre) @ [] # post) = s @ CHR ''.'' # join_dot (pre @ [] # post)"
    by (simp add: join_dot_Cons)
  have b: "join_dot ((s # pre) @ [[]]) = s @ CHR ''.'' # join_dot (pre @ [[]])"
    by (simp add: join_dot_Cons)
  from Cons.prems have s: "CHR ''.'' \<notin> set s" "s \<noteq> []" by auto
  from Cons.prems have "\<forall>s\<in>set pre. s \<noteq> [] \<and> CHR ''.'' \<notin> set s" by simp
  then have ih: "\<And>c. update_struct c (join_dot (pre @ [] # post)) leaf ap args =
                     update_struct c (join_dot (pre @ [[]])) leaf ap args"
    by (rule Cons.IH)
  show ?case
    unfolding a b by (simp add: update_struct_descend [OF s] ih)
qed

section \<open>Scenario A: plain nested update\<close>

text \<open>
  C7. For the input \<open>{a: {b: {c: 1, d: 2}}}\<close>, the dotted path \<open>a.b.c\<close>, no array path and
  the leaf that adds one, \<open>update_struct\<close> returns \<open>{a: {b: {c: 2, d: 2}}}\<close>.
\<close>

theorem scenario_a_plain_nested_update:
  "update_struct scenario_a_input ''a.b.c'' increment_by_one None () = Inr scenario_a_output"
  by (simp add: update_struct.simps scenario_defs)

section \<open>Scenario B: array broadcast\<close>

text \<open>
  With the dotted path \<open>items\<close> the call first descends into the field \<open>items\<close> and only
  then resolves the array path \<open>items.x\<close>, inside the array itself: the field access on
  the array fails, whichever of the two negating leaves is used.
\<close>

theorem scenario_b_items_path_fails:
  "update_struct scenario_b_input ''items'' negate_at (Some ''items.x'') ()
     \<noteq> Inr scenario_b_output
   \<and> update_struct scenario_b_input ''items'' negate (Some ''items.x'') ()
     \<noteq> Inr scenario_b_output"
  by (simp add: update_struct.simps scenario_defs)

text \<open>
  C3 (amended). The array path is resolved inside the value that the dotted path leads
  to. For the input \<open>{items: [{x: 1}, {x: 2}]}\<close>, the empty dotted path, the array path
  \<open>items.x\<close> and the leaf that negates the field named by the sub-path it is handed,
  \<open>update_struct\<close> returns \<open>{items: [{x: -1}, {x: -2}]}\<close>; likewise for the same struct
  held in a field \<open>w\<close> of the root and the dotted path \<open>w\<close>.
\<close>

theorem scenario_b_array_broadcast:
  "update_struct scenario_b_input [] negate_at (Some ''items.x'') () = Inr scenario_b_output
   \<and> update_struct (Struct [(''w'', scenario_b_input)]) ''w'' negate_at (Some ''items.x'') ()
       = Inr (Struct [(''w'', scenario_b_output)])"
  by (simp add: update_struct.simps scenario_defs Let_def)

section \<open>The empty dotted path\<close>

text \<open>
  C4 (amended). With an empty dotted path and no array path, the path splits into the
  single empty segment, and \<open>update_struct\<close> replaces the field of the root whose name is
  the empty string by the leaf applied to that field's value: when the root is a struct
  with such a field and the leaf succeeds, the result is the root with that field
  replaced; otherwise the call fails.
\<close>

theorem update_struct_empty_path:
  "update_struct col [] leaf None args =
     and_then (getField col []) (\<lambda>v. and_then (leaf v [] args) (withField col []))
   \<and> (\<forall>fs v w. col = Struct fs \<and> map_of fs [] = Some v \<and> leaf v [] args = Inr w \<longrightarrow>
        update_struct col [] leaf None args = Inr (Struct (replace_field [] w fs)))"
  by (simp add: update_struct.simps [of _ "[]"] withField_existing del: withField.simps)

theorem update_struct_empty_path_witness:
  "update_struct (Struct [([], int_val 1)]) [] increment_by_one None ()
     = Inr (Struct [([], int_val 2)])"
  using update_struct_empty_path [of "Struct [([], int_val 1)]" increment_by_one "()"]
  by (simp add: scenario_defs)

text \<open>
  The result is not the leaf applied to the root. On the primitive \<open>1\<close> the leaf gives \<open>2\<close>
  and the call fails; on the struct whose only field is named by the empty string the
  call returns that struct with the field incremented, which is not what the leaf gives
  on the struct.
\<close>

theorem update_struct_empty_path_counterexample:
  "increment_by_one (int_val 1) [] () = Inr (int_val 2)
   \<and> update_struct (int_val 1) [] increment_by_one None () \<noteq> Inr (int_val 2)
   \<and> update_struct (Struct [([], int_val 1)]) [] increment_by_one None ()
       = Inr (Struct [([], int_val 2)])
   \<and> update_struct (Struct [([], int_val 1)]) [] increment_by_one None ()
       \<noteq> increment_by_one (Struct [([], int_val 1)]) [] ()"
  by (simp add: update_struct.simps scenario_defs)

section \<open>Facts about sequencing, field replacement and the branches\<close>

lemma and_then_Inr_iff:
  "and_then m f = Inr y \<longleftrightarrow> (\<exists>x. m = Inr x \<and> f x = Inr y)"
  by (cases m) auto

lemma map_result_Inr_iff:
  "map_result g xs = Inr ys \<longleftrightarrow>
     length ys = length xs \<and> (\<forall>i<length xs. g (xs ! i) = Inr (ys ! i))"
proof (induction xs arbitrary: ys)
  case Nil
  then show ?case by auto
next
  case (Cons x xs)
  show ?case
  proof (cases ys)
    case Nil
    then show ?thesis by (auto simp: and_then_Inr_iff)
  next
    case (Cons y ys')
    then show ?thesis
      using Cons.IH [of ys']
      by (auto simp: and_then_Inr_iff nth_Cons split: nat.splits)
  qed
qed

lemma update_struct_terminal_array:
  assumes "hd (split_dot r) = [] \<or> (tl (split_dot r) = [] \<and> ap = [])"
  shows "update_struct col r leaf (Some ap) args =
         and_then (getField col (hd (split_dot ap)))
           (\<lambda>arr. and_then
              (transform arr (\<lambda>c. leaf c (join_dot (tl (split_dot ap))) args))
              (withField col (hd (split_dot ap))))"
  using assms by (auto simp add: update_struct.simps [of col r] Let_def)

lemma map_of_replace_field_same:
  "map_of fs f = Some v \<Longrightarrow> map_of (replace_field f w fs) f = Some w"
  by (induction fs) (auto split: if_splits)

lemma map_fst_replace_field [simp]: "map fst (replace_field f w fs) = map fst fs"
  by (induction fs) auto

lemma length_replace_field [simp]: "length (replace_field f w fs) = length fs"
  by (induction fs) auto

lemma replace_field_nth_other:
  "i < length fs \<Longrightarrow> fst (fs ! i) \<noteq> f \<Longrightarrow> replace_field f w fs ! i = fs ! i"
proof (induction fs arbitrary: i)
  case Nil
  then show ?case by simp
next
  case (Cons a fs)
  then show ?case
    by (cases a; cases i) auto
qed

lemma map_of_replace_field_other:
  "g \<noteq> f \<Longrightarrow> map_of (replace_field f w fs) g = map_of fs g"
  by (induction fs) auto

lemma rebuild_field_Inr:
  assumes "and_then (getField col X) (\<lambda>v. and_then (F v) (withField col X)) = Inr r"
  shows "\<exists>fs v w. col = Struct fs \<and> map_of fs X = Some v \<and> F v = Inr w
           \<and> r = Struct (replace_field X w fs)"
proof (cases col)
  case (Struct fs)
  with assms obtain v where v: "map_of fs X = Some v"
    by (cases "map_of fs X") auto
  with assms Struct obtain w where w: "F v = Inr w"
    by (cases "F v") auto
  from assms Struct v w have "r = Struct (replace_field X w fs)"
    by (simp add: withField_existing del: withField.simps)
  with Struct v w show ?thesis by blast
qed (use assms in auto)

lemma length_split_le_1: "(length (split_dot p) \<le> Suc 0) = (tl (split_dot p) = [])"
  by (cases "split_dot p") auto

lemma length_split_gt_1: "(Suc 0 < length (split_dot p)) = (tl (split_dot p) \<noteq> [])"
  by (cases "split_dot p") auto

section \<open>The broadcast step\<close>

text \<open>
  C8. In the terminal array state (the head segment of the remaining path is empty, or
  it is the only segment and the array path is the empty string; an array path is given)
  the field named by the head of the array path holds an array \<open>A\<close>. The call succeeds exactly when the
  leaf succeeds on every element, and then that field of the result holds an array \<open>B\<close>
  of the same length as \<open>A\<close> whose element at index \<open>i\<close> is the leaf applied to \<open>A ! i\<close>, the
  rest of the array path and the extra arguments: the order is kept and element \<open>i\<close>
  depends on \<open>A ! i\<close> only.
\<close>

theorem broadcast_elementwise:
  assumes "hd (split_dot r) = [] \<or> (tl (split_dot r) = [] \<and> ap = [])"
      and "map_of fs (hd (split_dot ap)) = Some (Array A)"
  shows "update_struct (Struct fs) r leaf (Some ap) args = Inr res \<longleftrightarrow>
         (\<exists>B. length B = length A
              \<and> (\<forall>i<length A. leaf (A ! i) (join_dot (tl (split_dot ap))) args = Inr (B ! i))
              \<and> res = Struct (replace_field (hd (split_dot ap)) (Array B) fs)
              \<and> getField res (hd (split_dot ap)) = Inr (Array B))"
proof -
  have "update_struct (Struct fs) r leaf (Some ap) args =
        and_then (map_result (\<lambda>c. leaf c (join_dot (tl (split_dot ap))) args) A)
          (\<lambda>B. Inr (Struct (replace_field (hd (split_dot ap)) (Array B) fs)))"
    using assms(2)
    by (cases "map_result (\<lambda>c. leaf c (join_dot (tl (split_dot ap))) args) A")
       (simp_all add: update_struct_terminal_array [OF assms(1)] withField_existing
          del: withField.simps)
  then show ?thesis
    using assms(2)
    by (auto simp: and_then_Inr_iff map_result_Inr_iff map_of_replace_field_same)
qed

theorem broadcast_elementwise_witness:
  "update_struct (Struct [(''items'', Array [int_val 1, int_val 2]), (''d'', int_val 5)]) []
     increment_by_one (Some ''items'') ()
   = Inr (Struct [(''items'', Array [int_val 2, int_val 3]), (''d'', int_val 5)])"
proof -
  have "hd (split_dot []) = [] \<or> (tl (split_dot []) = [] \<and> ''items'' = [])"
    by simp
  moreover have "map_of [(''items'', Array [int_val 1, int_val 2]), (''d'', int_val 5)]
          (hd (split_dot ''items'')) = Some (Array [int_val 1, int_val 2])"
    by simp
  ultimately show ?thesis
    using broadcast_elementwise [of "[]" "''items''" _ "[int_val 1, int_val 2]"
      increment_by_one "()"
      "Struct [(''items'', Array [int_val 2, int_val 3]), (''d'', int_val 5)]"]
    by (simp add: scenario_defs less_Suc_eq all_conj_distrib length_Suc_conv ex_simps)
qed

section \<open>The leaf coalescer\<close>

lemma map_result_getField:
  assumes "\<forall>t\<in>set ts. map_of fs t \<noteq> None"
  shows "map_result (getField (Struct fs)) ts = Inr (map (\<lambda>t. the (map_of fs t)) ts)"
  using assms by (induction ts) auto

lemma coalesce_first_non_null:
  assumes "i < length vs" and "\<not> is_null (vs ! i)" and "\<forall>j<i. is_null (vs ! j)"
  shows "coalesce vs = Inr (vs ! i)"
proof -
  have "find (\<lambda>x. \<not> is_null x) vs = Some (vs ! i)"
    unfolding find_Some_iff using assms by auto
  with assms(1) show ?thesis
    by (cases vs) auto
qed

lemma coalesce_all_null:
  assumes "vs \<noteq> []" and "\<forall>v\<in>set vs. is_null v"
  shows "coalesce vs = Inr (hd vs)"
proof -
  have "find (\<lambda>x. \<not> is_null x) vs = None"
    unfolding find_None_iff using assms(2) by auto
  with assms(1) show ?thesis
    by (cases vs) auto
qed

lemma is_null_cast: "is_null v \<Longrightarrow> cast conv t v = Inr (Null t)"
  by (cases v) auto

text \<open>
  C2. For a struct that has a field for every type tag of a non-empty list,
  \<open>group_to_primitive\<close> returns the value of the first field, in the order of the list,
  that is not null, cast to the first type tag of the list: a primitive comes back typed
  as the first tag, whatever the tag of the field it was taken from. In particular
  \<open>{t1: null, t2: "x"}\<close> with \<open>[t1, t2]\<close> gives \<open>"x"\<close> cast to \<open>t1\<close>.
\<close>

theorem group_to_primitive_first_non_null:
  assumes "\<forall>t\<in>set types. map_of fs t \<noteq> None"
      and "i < length types"
      and "map_of fs (types ! i) = Some v" and "\<not> is_null v"
      and "\<forall>j<i. \<exists>u. map_of fs (types ! j) = Some (Null u)"
  shows "group_to_primitive conv (Struct fs) r types = cast conv (hd types) v
         \<and> (\<forall>u s. v = Prim u s \<longrightarrow>
              group_to_primitive conv (Struct fs) r types
                = Inr (Prim (hd types) (conv (hd types) s)))"
proof -
  let ?vs = "map (\<lambda>t. the (map_of fs t)) types"
  from assms(2) have ne: "types \<noteq> []" by auto
  have "?vs ! i = v" using assms(2,3) by simp
  moreover have "\<forall>j<i. is_null (?vs ! j)"
  proof (intro allI impI)
    fix j assume "j < i"
    with assms(5) obtain u where "map_of fs (types ! j) = Some (Null u)" by blast
    with \<open>j < i\<close> assms(2) show "is_null (?vs ! j)" by simp
  qed
  ultimately have "coalesce ?vs = Inr v"
    using coalesce_first_non_null [of i ?vs] assms(2,4) by simp
  then have "group_to_primitive conv (Struct fs) r types = cast conv (hd types) v"
    using ne by (simp add: group_to_primitive_def map_result_getField [OF assms(1)])
  then show ?thesis by auto
qed

theorem group_to_primitive_first_non_null_witness:
  "group_to_primitive (\<lambda>t s. s)
     (Struct [(''int'', Null ''int''), (''string'', Prim ''string'' (SStr ''x''))]) []
     [''int'', ''string'']
   = Inr (Prim ''int'' (SStr ''x''))"
proof -
  let ?fs = "[(''int'', Null ''int''), (''string'', Prim ''string'' (SStr ''x''))]"
  have "\<forall>t\<in>set [''int'', ''string'']. map_of ?fs t \<noteq> None" by simp
  moreover have "1 < length [''int'', ''string'']" by simp
  moreover have "map_of ?fs ([''int'', ''string''] ! 1) = Some (Prim ''string'' (SStr ''x''))"
    by simp
  moreover have "\<not> is_null (Prim ''string'' (SStr ''x''))" by simp
  moreover have "\<forall>j<1. \<exists>u. map_of ?fs ([''int'', ''string''] ! j) = Some (Null u)" by simp
  ultimately show ?thesis
    using group_to_primitive_first_non_null
      [of "[''int'', ''string'']" ?fs 1 "Prim ''string'' (SStr ''x'')" "\<lambda>t s. s" "[]"]
    by simp
qed

text \<open>
  C6. For a struct whose fields named by the type tags (at least one tag, as the contract
  of the coalescer requires) are all null, \<open>group_to_primitive\<close> does not fail: it returns
  the null typed as the first type tag.
\<close>

theorem group_to_primitive_all_null:
  assumes "types \<noteq> []"
      and "\<forall>t\<in>set types. \<exists>u. map_of fs t = Some (Null u)"
  shows "group_to_primitive conv (Struct fs) r types = Inr (Null (hd types))"
proof -
  let ?vs = "map (\<lambda>t. the (map_of fs t)) types"
  from assms(2) have ex: "\<forall>t\<in>set types. map_of fs t \<noteq> None" by auto
  have nulls: "\<forall>v\<in>set ?vs. is_null v"
    using assms(2) by auto
  with assms(1) have "coalesce ?vs = Inr (hd ?vs)"
    by (intro coalesce_all_null) auto
  moreover have "is_null (hd ?vs)"
    using nulls assms(1) by (cases types) auto
  ultimately show ?thesis
    using assms(1)
    by (simp add: group_to_primitive_def map_result_getField [OF ex] is_null_cast)
qed

theorem group_to_primitive_all_null_witness:
  "group_to_primitive (\<lambda>t s. s)
     (Struct [(''int'', Null ''int''), (''string'', Null ''string'')]) []
     [''int'', ''string'']
   = Inr (Null ''int'')"
proof -
  let ?fs = "[(''int'', Null ''int''), (''string'', Null ''string'')]"
  have "[''int'', ''string''] \<noteq> []" by simp
  moreover have "\<forall>t\<in>set [''int'', ''string'']. \<exists>u. map_of ?fs t = Some (Null u)" by simp
  ultimately show ?thesis
    using group_to_primitive_all_null [of "[''int'', ''string'']" ?fs "\<lambda>t s. s" "[]"]
    by simp
qed

section \<open>Empty path segments\<close>

lemma get_path_append:
  "get_path v (q @ q') = and_then (get_path v q) (\<lambda>c. get_path c q')"
proof (induction q arbitrary: v)
  case Nil
  show ?case by simp
next
  case (Cons f q)
  show ?case
    by (cases "getField v f") (simp_all add: Cons.IH)
qed

lemma rebuild_field_success:
  "(\<exists>r. and_then (getField col s) (\<lambda>sub. and_then (K sub) (withField col s)) = Inr r)
     \<longleftrightarrow> (\<exists>sub w. getField col s = Inr sub \<and> K sub = Inr w)"
proof
  assume "\<exists>r. and_then (getField col s) (\<lambda>sub. and_then (K sub) (withField col s)) = Inr r"
  then obtain r where
    "and_then (getField col s) (\<lambda>sub. and_then (K sub) (withField col s)) = Inr r" ..
  from rebuild_field_Inr [OF this] show "\<exists>sub w. getField col s = Inr sub \<and> K sub = Inr w"
    by auto
next
  assume "\<exists>sub w. getField col s = Inr sub \<and> K sub = Inr w"
  then obtain sub w where g: "getField col s = Inr sub" and k: "K sub = Inr w" by blast
  from g obtain fs where col: "col = Struct fs" and m: "map_of fs s = Some sub"
    by (cases col) (auto split: option.splits)
  show "\<exists>r. and_then (getField col s) (\<lambda>sub. and_then (K sub) (withField col s)) = Inr r"
    using g k col m by (simp add: withField_existing del: withField.simps)
qed

lemma descend_success:
  assumes "\<forall>s\<in>set pre. s \<noteq> [] \<and> CHR ''.'' \<notin> set s"
  shows "(\<exists>r. update_struct col (join_dot (pre @ [] # post)) leaf ap args = Inr r)
           \<longleftrightarrow> (\<exists>c. get_path col pre = Inr c
                    \<and> (\<exists>r. update_struct c [] leaf ap args = Inr r))"
  using assms
proof (induction pre arbitrary: col)
  case Nil
  have "hd (split_dot (join_dot ([] # post))) = []"
    by (cases post) auto
  then have "update_struct col (join_dot ([] # post)) leaf ap args =
             update_struct col [] leaf ap args"
    by (rule update_struct_empty_head)
  then show ?case by simp
next
  case (Cons s pre)
  have a: "join_dot ((s # pre) @ [] # post) = s @ CHR ''.'' # join_dot (pre @ [] # post)"
    by (simp add: join_dot_Cons)
  from Cons.prems have s: "CHR ''.'' \<notin> set s" "s \<noteq> []" by auto
  from Cons.prems have "\<forall>s\<in>set pre. s \<noteq> [] \<and> CHR ''.'' \<notin> set s" by simp
  then have ih: "\<And>c. (\<exists>r. update_struct c (join_dot (pre @ [] # post)) leaf ap args = Inr r)
           \<longleftrightarrow> (\<exists>c'. get_path c pre = Inr c'
                    \<and> (\<exists>r. update_struct c' [] leaf ap args = Inr r))"
    by (rule Cons.IH)
  have "(\<exists>r. update_struct col (join_dot ((s # pre) @ [] # post)) leaf ap args = Inr r)
        \<longleftrightarrow> (\<exists>sub w. getField col s = Inr sub
               \<and> update_struct sub (join_dot (pre @ [] # post)) leaf ap args = Inr w)"
    unfolding a update_struct_descend [OF s] by (rule rebuild_field_success)
  also have "\<dots> \<longleftrightarrow> (\<exists>sub. getField col s = Inr sub
               \<and> (\<exists>c'. get_path sub pre = Inr c'
                    \<and> (\<exists>r. update_struct c' [] leaf ap args = Inr r)))"
    using ih by blast
  also have "\<dots> \<longleftrightarrow> (\<exists>c. get_path col (s # pre) = Inr c
                    \<and> (\<exists>r. update_struct c [] leaf ap args = Inr r))"
    by (cases "getField col s") auto
  finally show ?case .
qed

lemma terminal_scalar_success:
  "(\<exists>r. update_struct c [] leaf None args = Inr r)
     \<longleftrightarrow> (\<exists>v w. getField c [] = Inr v \<and> leaf v [] args = Inr w)"
proof -
  have "update_struct c [] leaf None args =
        and_then (getField c []) (\<lambda>v. and_then (leaf v [] args) (withField c []))"
    by (simp add: update_struct.simps [of c "[]"])
  then show ?thesis
    by (simp only: rebuild_field_success)
qed

lemma map_result_success:
  "(\<exists>ys. map_result g xs = Inr ys) \<longleftrightarrow> (\<forall>x\<in>set xs. \<exists>y. g x = Inr y)"
proof (induction xs)
  case Nil
  show ?case by simp
next
  case (Cons x xs)
  show ?case
  proof (cases "g x")
    case (Inl e)
    then show ?thesis by auto
  next
    case (Inr y)
    then show ?thesis
      using Cons.IH by (cases "map_result g xs") auto
  qed
qed

lemma transform_success:
  "(\<exists>w. transform arr g = Inr w)
     \<longleftrightarrow> (\<exists>A. arr = Array A \<and> (\<forall>x\<in>set A. \<exists>y. g x = Inr y))"
proof (cases arr)
  case (Array A)
  have "(\<exists>w. transform (Array A) g = Inr w) \<longleftrightarrow> (\<exists>ys. map_result g A = Inr ys)"
    by (cases "map_result g A") auto
  with Array show ?thesis
    by (simp add: map_result_success del: transform.simps)
qed auto

lemma terminal_array_success:
  "(\<exists>r. update_struct c [] leaf (Some a) args = Inr r)
     \<longleftrightarrow> (\<exists>A. getField c (hd (split_dot a)) = Inr (Array A)
              \<and> (\<forall>x\<in>set A. \<exists>y. leaf x (join_dot (tl (split_dot a))) args = Inr y))"
proof -
  have "update_struct c [] leaf (Some a) args =
         and_then (getField c (hd (split_dot a)))
           (\<lambda>arr. and_then
              (transform arr (\<lambda>c. leaf c (join_dot (tl (split_dot a))) args))
              (withField c (hd (split_dot a))))"
    by (rule update_struct_terminal_array) simp
  then have "(\<exists>r. update_struct c [] leaf (Some a) args = Inr r)
     \<longleftrightarrow> (\<exists>arr w. getField c (hd (split_dot a)) = Inr arr
              \<and> transform arr (\<lambda>c. leaf c (join_dot (tl (split_dot a))) args) = Inr w)"
    by (simp only: rebuild_field_success)
  also have "\<dots> \<longleftrightarrow> (\<exists>arr. getField c (hd (split_dot a)) = Inr arr
              \<and> (\<exists>A. arr = Array A
                   \<and> (\<forall>x\<in>set A. \<exists>y. leaf x (join_dot (tl (split_dot a))) args = Inr y)))"
    using transform_success [of _ "\<lambda>c. leaf c (join_dot (tl (split_dot a))) args"]
    by blast
  finally show ?thesis by blast
qed

lemma update_struct_empty_remaining:
  "update_struct c [] leaf ap args = end_of_path leaf ap args c"
  by (simp add: update_struct.simps [of c "[]"] end_of_path_def Let_def split: option.splits)

lemma update_struct_descend_then:
  assumes "\<forall>s\<in>set pre. s \<noteq> [] \<and> CHR ''.'' \<notin> set s"
  shows "update_struct col (join_dot (pre @ [] # post)) leaf ap args =
         descend_then col pre (end_of_path leaf ap args)"
  using assms
proof (induction pre arbitrary: col)
  case Nil
  have "hd (split_dot (join_dot ([] # post))) = []"
    by (cases post) auto
  then have "update_struct col (join_dot ([] # post)) leaf ap args =
             update_struct col [] leaf ap args"
    by (rule update_struct_empty_head)
  then show ?case by (simp add: update_struct_empty_remaining)
next
  case (Cons s pre)
  have a: "join_dot ((s # pre) @ [] # post) = s @ CHR ''.'' # join_dot (pre @ [] # post)"
    by (simp add: join_dot_Cons)
  from Cons.prems have s: "CHR ''.'' \<notin> set s" "s \<noteq> []" by auto
  from Cons.prems have "\<forall>s\<in>set pre. s \<noteq> [] \<and> CHR ''.'' \<notin> set s" by simp
  then have ih: "\<And>c. update_struct c (join_dot (pre @ [] # post)) leaf ap args =
                     descend_then c pre (end_of_path leaf ap args)"
    by (rule Cons.IH)
  show ?case
    unfolding a by (simp add: update_struct_descend [OF s] ih)
qed

text \<open>
  C5 (amended). A dotted path with an empty segment is not rejected. \<open>update_struct\<close>
  descends through the segments before the first empty segment and there does the step
  of the end of the path, ignoring every segment after the empty one: it rebuilds the
  fields named by those segments around the broadcast over the array named by the array
  path or, with no array path, around the leaf applied to the field named by the empty
  string. The result is that of the path cut after its first empty segment. The call
  succeeds exactly when the fields named by the segments before the empty one can be read
  one inside the other and, with no array path, the value reached has a field named by
  the empty string on which the leaf succeeds, or, with an array path, the value reached
  has an array in the field named by the head of the array path and the leaf succeeds on
  every element. So it fails only where a field access (or the leaf) fails.
\<close>

theorem update_struct_empty_segment_ends_path:
  assumes "split_dot p = pre @ [] # post" and "\<forall>s\<in>set pre. s \<noteq> []"
  shows "update_struct col p leaf ap args = descend_then col pre (end_of_path leaf ap args)
         \<and> update_struct col p leaf ap args =
             update_struct col (join_dot (pre @ [[]])) leaf ap args
         \<and> ((\<exists>r. update_struct col p leaf None args = Inr r)
              \<longleftrightarrow> (\<exists>v w. get_path col (pre @ [[]]) = Inr v \<and> leaf v [] args = Inr w))
         \<and> ((\<exists>r. update_struct col p leaf (Some a) args = Inr r)
              \<longleftrightarrow> (\<exists>A. get_path col (pre @ [hd (split_dot a)]) = Inr (Array A)
                     \<and> (\<forall>x\<in>set A. \<exists>y. leaf x (join_dot (tl (split_dot a))) args = Inr y)))"
proof -
  have "\<forall>s\<in>set pre. CHR ''.'' \<notin> set s"
    using split_dot_dot_free [of _ p] assms(1) by simp
  with assms(2) have pre: "\<forall>s\<in>set pre. s \<noteq> [] \<and> CHR ''.'' \<notin> set s" by blast
  have p: "join_dot (pre @ [] # post) = p"
    using join_split_dot [of p] assms(1) by simp
  have cut: "update_struct col p leaf ap args =
             update_struct col (join_dot (pre @ [[]])) leaf ap args"
    using update_struct_cut_at_empty [OF pre, of col post leaf ap args] p by simp
  have scalar: "(\<exists>r. update_struct col p leaf None args = Inr r)
              \<longleftrightarrow> (\<exists>v w. get_path col (pre @ [[]]) = Inr v \<and> leaf v [] args = Inr w)"
  proof -
    have "(\<exists>r. update_struct col p leaf None args = Inr r)
          \<longleftrightarrow> (\<exists>c. get_path col pre = Inr c
                 \<and> (\<exists>v w. getField c [] = Inr v \<and> leaf v [] args = Inr w))"
      using descend_success [OF pre, of col post leaf None args] p
      by (simp add: terminal_scalar_success)
    also have "\<dots> \<longleftrightarrow> (\<exists>v w. get_path col (pre @ [[]]) = Inr v \<and> leaf v [] args = Inr w)"
      by (cases "get_path col pre") (auto simp: get_path_append and_then_Inr_iff)
    finally show ?thesis .
  qed
  have array: "(\<exists>r. update_struct col p leaf (Some a) args = Inr r)
              \<longleftrightarrow> (\<exists>A. get_path col (pre @ [hd (split_dot a)]) = Inr (Array A)
                     \<and> (\<forall>x\<in>set A. \<exists>y. leaf x (join_dot (tl (split_dot a))) args = Inr y))"
  proof -
    have "(\<exists>r. update_struct col p leaf (Some a) args = Inr r)
          \<longleftrightarrow> (\<exists>c. get_path col pre = Inr c
                 \<and> (\<exists>A. getField c (hd (split_dot a)) = Inr (Array A)
                      \<and> (\<forall>x\<in>set A. \<exists>y. leaf x (join_dot (tl (split_dot a))) args = Inr y)))"
      using descend_success [OF pre, of col post leaf "Some a" args] p
      by (simp add: terminal_array_success)
    also have "\<dots> \<longleftrightarrow> (\<exists>A. get_path col (pre @ [hd (split_dot a)]) = Inr (Array A)
                     \<and> (\<forall>x\<in>set A. \<exists>y. leaf x (join_dot (tl (split_dot a))) args = Inr y))"
      by (cases "get_path col pre") (auto simp: get_path_append and_then_Inr_iff)
    finally show ?thesis .
  qed
  have expl: "update_struct col p leaf ap args = descend_then col pre (end_of_path leaf ap args)"
    using update_struct_descend_then [OF pre, of col post leaf ap args] p by simp
  from expl cut scalar array show ?thesis by blast
qed

theorem update_struct_empty_segment_ends_path_witness:
  "update_struct (Struct [(''a'', Struct [([], int_val 1)])]) ''a..b'' increment_by_one None ()
     = update_struct (Struct [(''a'', Struct [([], int_val 1)])]) ''a.'' increment_by_one None ()
   \<and> (\<exists>r. update_struct (Struct [(''a'', Struct [([], int_val 1)])]) ''a..b''
             increment_by_one None () = Inr r)
   \<and> (\<exists>r. update_struct (Struct [(''a'', Struct [(''items'', Array [int_val 1, int_val 2])])])
             ''a..b'' increment_by_one (Some ''items'') () = Inr r)"
proof -
  have sp: "split_dot ''a..b'' = [''a''] @ [] # [''b'']" by simp
  have ne: "\<forall>s\<in>set [''a'']. s \<noteq> []" by simp
  note t = update_struct_empty_segment_ends_path [OF sp ne]
  have j: "join_dot ([''a''] @ [[]]) = ''a.''" by simp
  from t [of "Struct [(''a'', Struct [([], int_val 1)])]" increment_by_one None "()"]
  have "update_struct (Struct [(''a'', Struct [([], int_val 1)])]) ''a..b'' increment_by_one None ()
     = update_struct (Struct [(''a'', Struct [([], int_val 1)])]) (join_dot ([''a''] @ [[]]))
         increment_by_one None ()"
    by blast
  then have 1: "update_struct (Struct [(''a'', Struct [([], int_val 1)])]) ''a..b'' increment_by_one None ()
     = update_struct (Struct [(''a'', Struct [([], int_val 1)])]) ''a.'' increment_by_one None ()"
    unfolding j .
  have "\<exists>v w. get_path (Struct [(''a'', Struct [([], int_val 1)])]) ([''a''] @ [[]]) = Inr v
          \<and> increment_by_one v [] () = Inr w"
    by (simp add: scenario_defs)
  with t [of "Struct [(''a'', Struct [([], int_val 1)])]" increment_by_one None "()"]
  have 2: "\<exists>r. update_struct (Struct [(''a'', Struct [([], int_val 1)])]) ''a..b''
             increment_by_one None () = Inr r"
    by blast
  have "\<exists>A. get_path (Struct [(''a'', Struct [(''items'', Array [int_val 1, int_val 2])])])
               ([''a''] @ [hd (split_dot ''items'')]) = Inr (Array A)
          \<and> (\<forall>x\<in>set A. \<exists>y. increment_by_one x (join_dot (tl (split_dot ''items''))) () = Inr y)"
    by (simp add: scenario_defs)
  with t [of "Struct [(''a'', Struct [(''items'', Array [int_val 1, int_val 2])])]"
             increment_by_one _ "()" "''items''"]
  have 3: "\<exists>r. update_struct (Struct [(''a'', Struct [(''items'', Array [int_val 1, int_val 2])])])
             ''a..b'' increment_by_one (Some ''items'') () = Inr r"
    by blast
  from 1 2 3 show ?thesis by blast
qed

text \<open>
  A path with a leading dot is accepted: with the array path \<open>items\<close> the call returns the
  root with every element of \<open>items\<close> incremented, and the segment \<open>a\<close> is ignored.
\<close>

theorem update_struct_empty_segment_counterexample:
  "update_struct (Struct [(''items'', Array [int_val 1, int_val 2])]) ''.a''
     increment_by_one (Some ''items'') ()
   = Inr (Struct [(''items'', Array [int_val 2, int_val 3])])"
  by (simp add: update_struct.simps scenario_defs)

section \<open>Sibling preservation\<close>

lemma update_struct_step:
  assumes "update_struct col p leaf ap args = Inr r"
  shows "\<exists>fs X v w. col = Struct fs \<and> map_of fs X = Some v
           \<and> r = Struct (replace_field X w fs)
           \<and> (update_struct_target p ap = [X]
               \<or> (\<exists>p'. update_struct_target p ap = X # update_struct_target p' ap
                        \<and> update_struct v p' leaf ap args = Inr w))"
proof -
  let ?f = "hd (split_dot p)" and ?rest = "tl (split_dot p)"
  consider (descend) "?rest \<noteq> [] \<and> ?f \<noteq> []"
    | (pre) "\<not> (?rest \<noteq> [] \<and> ?f \<noteq> [])" "?rest = [] \<and> ?f \<noteq> [] \<and> truthy ap"
    | (arr) a where "\<not> (?rest \<noteq> [] \<and> ?f \<noteq> [])"
        "\<not> (?rest = [] \<and> ?f \<noteq> [] \<and> truthy ap)" "ap = Some a"
    | (scalar) "\<not> (?rest \<noteq> [] \<and> ?f \<noteq> [])"
        "\<not> (?rest = [] \<and> ?f \<noteq> [] \<and> truthy ap)" "ap = None"
    by (cases ap) auto
  then show ?thesis
  proof cases
    case descend
    with assms have h: "and_then (getField col ?f)
        (\<lambda>sub. and_then (update_struct sub (join_dot ?rest) leaf ap args) (withField col ?f)) = Inr r"
      by (auto simp add: update_struct.simps [of col p] Let_def length_split_le_1
            length_split_gt_1)
    from descend have t:
      "update_struct_target p ap = ?f # update_struct_target (join_dot ?rest) ap"
      by (auto simp add: update_struct_target.simps [of p] Let_def length_split_le_1
            length_split_gt_1)
    from rebuild_field_Inr [OF h] t show ?thesis
      by blast
  next
    case pre
    with assms have h: "and_then (getField col ?f)
        (\<lambda>sub. and_then (update_struct sub [] leaf ap args) (withField col ?f)) = Inr r"
      by (auto simp add: update_struct.simps [of col p] Let_def length_split_le_1
            length_split_gt_1)
    from pre have t:
      "update_struct_target p ap = ?f # update_struct_target [] ap"
      by (auto simp add: update_struct_target.simps [of p] Let_def length_split_le_1
            length_split_gt_1)
    from rebuild_field_Inr [OF h] t show ?thesis
      by blast
  next
    case arr
    with assms have h: "and_then (getField col (hd (split_dot a)))
        (\<lambda>arr. and_then (transform arr (\<lambda>c. leaf c (join_dot (tl (split_dot a))) args))
                 (withField col (hd (split_dot a)))) = Inr r"
      by (auto simp add: update_struct.simps [of col p] Let_def length_split_le_1
            length_split_gt_1)
    from arr have t: "update_struct_target p ap = [hd (split_dot a)]"
      by (auto simp add: update_struct_target.simps [of p] Let_def length_split_le_1
            length_split_gt_1)
    from rebuild_field_Inr [OF h] t show ?thesis
      by blast
  next
    case scalar
    with assms have h: "and_then (getField col ?f)
        (\<lambda>v. and_then (leaf v ?f args) (withField col ?f)) = Inr r"
      by (auto simp add: update_struct.simps [of col p] Let_def length_split_le_1
            length_split_gt_1)
    from scalar have t: "update_struct_target p ap = [?f]"
      by (auto simp add: update_struct_target.simps [of p] Let_def length_split_le_1
            length_split_gt_1)
    from rebuild_field_Inr [OF h] t show ?thesis
      by blast
  qed
qed

lemma filter_replace_field:
  "filter (\<lambda>e. fst e \<noteq> f) (replace_field f w fs) = filter (\<lambda>e. fst e \<noteq> f) fs"
  by (induction fs) auto

lemma update_struct_target_not_Nil [simp]: "update_struct_target p ap \<noteq> []"
  by (simp add: update_struct_target.simps [of p] Let_def split: option.splits)

lemma update_struct_target_hd:
  "hd (update_struct_target p ap) =
     (case ap of
        None \<Rightarrow> hd (split_dot p)
      | Some a \<Rightarrow>
          if hd (split_dot p) = [] \<or> (tl (split_dot p) = [] \<and> a = [])
          then hd (split_dot a) else hd (split_dot p))"
  by (auto simp add: update_struct_target.simps [of p] Let_def length_split_le_1
        length_split_gt_1 split: option.splits)

lemma split_dot_join_tl:
  assumes "tl (split_dot p) \<noteq> []"
  shows "split_dot (join_dot (tl (split_dot p))) = tl (split_dot p)"
proof -
  have "\<forall>s\<in>set (tl (split_dot p)). CHR ''.'' \<notin> set s"
    using split_dot_dot_free [of _ p] by (auto dest: list.set_sel(2) [rotated])
  with assms show ?thesis by (rule split_join_dot)
qed

lemma update_struct_target_plain:
  "ap = None \<Longrightarrow> \<forall>s\<in>set (split_dot p). s \<noteq> [] \<Longrightarrow> update_struct_target p ap = split_dot p"
proof (induction p ap rule: update_struct_target.induct)
  case (1 remaining array_path)
  let ?f = "hd (split_dot remaining)" and ?rest = "tl (split_dot remaining)"
  from "1.prems"(2) have f: "?f \<noteq> []"
    by (cases "split_dot remaining") auto
  show ?case
  proof (cases "?rest = []")
    case True
    with f "1.prems"(1) have "update_struct_target remaining array_path = [?f]"
      by (simp add: update_struct_target.simps [of remaining] Let_def)
    with True show ?thesis
      by (cases "split_dot remaining") auto
  next
    case False
    with f have t: "update_struct_target remaining array_path =
                    ?f # update_struct_target (join_dot ?rest) array_path"
      by (simp add: update_struct_target.simps [of remaining] Let_def)
    have sp: "split_dot (join_dot ?rest) = ?rest"
      using False by (rule split_dot_join_tl)
    have "\<forall>s\<in>set ?rest. s \<noteq> []"
      using "1.prems"(2) by (auto dest: list.set_sel(2) [rotated])
    with sp have "update_struct_target (join_dot ?rest) array_path = ?rest"
      using "1.IH"(1) [OF refl refl _ "1.prems"(1)] False f
      by (simp add: length_split_gt_1)
    with t show ?thesis
      by (cases "split_dot remaining") auto
  qed
qed

lemma update_struct_target_array:
  "ap = Some a \<Longrightarrow> a \<noteq> [] \<Longrightarrow> \<forall>s\<in>set (split_dot p). s \<noteq> [] \<Longrightarrow>
   update_struct_target p ap = split_dot p @ [hd (split_dot a)]"
proof (induction p ap rule: update_struct_target.induct)
  case (1 remaining array_path)
  let ?f = "hd (split_dot remaining)" and ?rest = "tl (split_dot remaining)"
  from "1.prems"(3) have f: "?f \<noteq> []"
    by (cases "split_dot remaining") auto
  show ?case
  proof (cases "?rest = []")
    case True
    with f "1.prems"(1,2) have "update_struct_target remaining array_path =
        ?f # update_struct_target [] array_path"
      by (simp add: update_struct_target.simps [of remaining] Let_def)
    moreover have "update_struct_target [] array_path = [hd (split_dot a)]"
      using "1.prems"(1) by (simp add: update_struct_target.simps [of "[]"])
    ultimately show ?thesis
      using True by (cases "split_dot remaining") auto
  next
    case False
    with f have t: "update_struct_target remaining array_path =
                    ?f # update_struct_target (join_dot ?rest) array_path"
      by (simp add: update_struct_target.simps [of remaining] Let_def)
    have sp: "split_dot (join_dot ?rest) = ?rest"
      using False by (rule split_dot_join_tl)
    have "\<forall>s\<in>set ?rest. s \<noteq> []"
      using "1.prems"(3) by (auto dest: list.set_sel(2) [rotated])
    with sp have "update_struct_target (join_dot ?rest) array_path = ?rest @ [hd (split_dot a)]"
      using "1.IH"(1) [OF refl refl _ "1.prems"(1,2)] False f
      by (simp add: length_split_gt_1)
    with t show ?thesis
      by (cases "split_dot remaining") auto
  qed
qed

lemma update_struct_siblings_deep:
  assumes "update_struct root p leaf ap args = Inr r"
      and "i < length (update_struct_target p ap)"
  shows "\<exists>fs fs'.
           get_path root (take i (update_struct_target p ap)) = Inr (Struct fs)
         \<and> get_path r (take i (update_struct_target p ap)) = Inr (Struct fs')
         \<and> filter (\<lambda>e. fst e \<noteq> update_struct_target p ap ! i) fs'
             = filter (\<lambda>e. fst e \<noteq> update_struct_target p ap ! i) fs
         \<and> (\<forall>f. f \<noteq> update_struct_target p ap ! i \<longrightarrow>
               getField (Struct fs') f = getField (Struct fs) f)"
  using assms
proof (induction i arbitrary: root r p)
  case 0
  from update_struct_step [OF "0.prems"(1)] obtain fs X w where
    root: "root = Struct fs" and r: "r = Struct (replace_field X w fs)"
    and X: "hd (update_struct_target p ap) = X"
    by auto
  from X have "update_struct_target p ap ! 0 = X"
    by (cases "update_struct_target p ap") auto
  then show ?case
    using root r by (simp add: filter_replace_field map_of_replace_field_other)
next
  case (Suc i)
  from update_struct_step [OF Suc.prems(1)] obtain fs X v w where
    root: "root = Struct fs" and v: "map_of fs X = Some v"
    and r: "r = Struct (replace_field X w fs)"
    and t: "update_struct_target p ap = [X]
            \<or> (\<exists>p'. update_struct_target p ap = X # update_struct_target p' ap
                     \<and> update_struct v p' leaf ap args = Inr w)"
    by blast
  from Suc.prems(2) t obtain p' where
    t': "update_struct_target p ap = X # update_struct_target p' ap"
    and rec: "update_struct v p' leaf ap args = Inr w"
    by auto
  from Suc.prems(2) t' have "i < length (update_struct_target p' ap)" by simp
  from Suc.IH [OF rec this] show ?case
    using root r v t' by (simp add: map_of_replace_field_same)
qed

text \<open>
  With an array path, the field that the terminal array state replaces is the head of
  the array path, not the head of the dotted path: for the empty dotted path and the array
  path \<open>items\<close>, the field \<open>items\<close> of the root is not the head segment of the dotted path
  and yet it is changed.
\<close>

theorem update_struct_sibling_preservation_counterexample:
  "''items'' \<noteq> hd (split_dot [])
   \<and> update_struct (Struct [(''items'', Array [int_val 1, int_val 2]), (''d'', int_val 5)]) []
        increment_by_one (Some ''items'') ()
      = Inr (Struct [(''items'', Array [int_val 2, int_val 3]), (''d'', int_val 5)])
   \<and> getField (Struct [(''items'', Array [int_val 2, int_val 3]), (''d'', int_val 5)]) ''items''
      \<noteq> getField (Struct [(''items'', Array [int_val 1, int_val 2]), (''d'', int_val 5)]) ''items''"
  by (simp add: update_struct.simps scenario_defs)

text \<open>
  C1 (amended). A successful \<open>update_struct\<close> replaces one field at every level of the
  addressed path \<open>update_struct_target\<close>. At the root that field is the head segment of the
  dotted path, except when an array path is given and the root call is itself in the
  terminal array state (the head segment of the dotted path is empty, or it is the only
  segment and the array path is the empty string): then it is the head segment of the
  array path. For a dotted path without empty segments the addressed path is the list of
  its segments, followed by the head segment of the array path when a non-empty one is
  given. The root and the result are structs, every field of the root other than the
  replaced one maps to the same value in the result, and the entries of the other fields
  are the same in the same order. The same holds at every nesting level: the values
  reached in the input and in the result along the first \<open>i\<close> fields of the addressed path
  are structs whose entries, apart from the field replaced at that level, are the same in
  the same order.
\<close>

theorem update_struct_sibling_preservation:
  assumes "update_struct root p leaf ap args = Inr r"
  shows "hd (update_struct_target p ap) =
           (case ap of
              None \<Rightarrow> hd (split_dot p)
            | Some a \<Rightarrow>
                if hd (split_dot p) = [] \<or> (tl (split_dot p) = [] \<and> a = [])
                then hd (split_dot a) else hd (split_dot p))
         \<and> (ap = None \<and> (\<forall>s\<in>set (split_dot p). s \<noteq> []) \<longrightarrow>
               update_struct_target p ap = split_dot p)
         \<and> (\<forall>a. ap = Some a \<and> a \<noteq> [] \<and> (\<forall>s\<in>set (split_dot p). s \<noteq> []) \<longrightarrow>
               update_struct_target p ap = split_dot p @ [hd (split_dot a)])
         \<and> (\<exists>fs fs'. root = Struct fs \<and> r = Struct fs'
               \<and> filter (\<lambda>e. fst e \<noteq> hd (update_struct_target p ap)) fs'
                   = filter (\<lambda>e. fst e \<noteq> hd (update_struct_target p ap)) fs
               \<and> (\<forall>f. f \<noteq> hd (update_struct_target p ap) \<longrightarrow>
                     getField r f = getField root f))
         \<and> (\<forall>i<length (update_struct_target p ap). \<exists>fs fs'.
               get_path root (take i (update_struct_target p ap)) = Inr (Struct fs)
             \<and> get_path r (take i (update_struct_target p ap)) = Inr (Struct fs')
             \<and> filter (\<lambda>e. fst e \<noteq> update_struct_target p ap ! i) fs'
                 = filter (\<lambda>e. fst e \<noteq> update_struct_target p ap ! i) fs
             \<and> (\<forall>f. f \<noteq> update_struct_target p ap ! i \<longrightarrow>
                   getField (Struct fs') f = getField (Struct fs) f))"
proof (intro conjI)
  show "hd (update_struct_target p ap) =
           (case ap of
              None \<Rightarrow> hd (split_dot p)
            | Some a \<Rightarrow>
                if hd (split_dot p) = [] \<or> (tl (split_dot p) = [] \<and> a = [])
                then hd (split_dot a) else hd (split_dot p))"
    by (rule update_struct_target_hd)
next
  show "ap = None \<and> (\<forall>s\<in>set (split_dot p). s \<noteq> []) \<longrightarrow>
               update_struct_target p ap = split_dot p"
    using update_struct_target_plain by blast
next
  show "\<forall>a. ap = Some a \<and> a \<noteq> [] \<and> (\<forall>s\<in>set (split_dot p). s \<noteq> []) \<longrightarrow>
               update_struct_target p ap = split_dot p @ [hd (split_dot a)]"
    using update_struct_target_array by blast
next
  have "0 < length (update_struct_target p ap)" by simp
  from update_struct_siblings_deep [OF assms this]
  show "\<exists>fs fs'. root = Struct fs \<and> r = Struct fs'
               \<and> filter (\<lambda>e. fst e \<noteq> hd (update_struct_target p ap)) fs'
                   = filter (\<lambda>e. fst e \<noteq> hd (update_struct_target p ap)) fs
               \<and> (\<forall>f. f \<noteq> hd (update_struct_target p ap) \<longrightarrow>
                     getField r f = getField root f)"
    by (auto simp: hd_conv_nth)
next
  show "\<forall>i<length (update_struct_target p ap). \<exists>fs fs'.
               get_path root (take i (update_struct_target p ap)) = Inr (Struct fs)
             \<and> get_path r (take i (update_struct_target p ap)) = Inr (Struct fs')
             \<and> filter (\<lambda>e. fst e \<noteq> update_struct_target p ap ! i) fs'
                 = filter (\<lambda>e. fst e \<noteq> update_struct_target p ap ! i) fs
             \<and> (\<forall>f. f \<noteq> update_struct_target p ap ! i \<longrightarrow>
                   getField (Struct fs') f = getField (Struct fs) f)"
    using update_struct_siblings_deep [OF assms] by blast
qed

theorem update_struct_sibling_preservation_witness:
  "update_struct sibling_input ''w'' negate_at (Some ''items.x'') () = Inr sibling_output
   \<and> update_struct_target ''w'' (Some ''items.x'') = [''w'', ''items'']
   \<and> getField sibling_output ''items'' = getField sibling_input ''items''
   \<and> (\<exists>fs fs'. get_path sibling_input [''w''] = Inr (Struct fs)
          \<and> get_path sibling_output [''w''] = Inr (Struct fs')
          \<and> filter (\<lambda>e. fst e \<noteq> ''items'') fs' = filter (\<lambda>e. fst e \<noteq> ''items'') fs
          \<and> getField (Struct fs') ''k'' = getField (Struct fs) ''k'')"
proof -
  have run: "update_struct sibling_input ''w'' negate_at (Some ''items.x'') () = Inr sibling_output"
    by (simp add: update_struct.simps scenario_defs sibling_input_def sibling_output_def Let_def)
  note t = update_struct_sibling_preservation [OF run]
  have seg: "\<forall>s\<in>set (split_dot ''w''). s \<noteq> []" by simp
  from t seg have target: "update_struct_target ''w'' (Some ''items.x'') = [''w'', ''items'']"
    by simp
  from t target have root: "getField sibling_output ''items'' = getField sibling_input ''items''"
    by auto
  from t have "\<forall>i<length (update_struct_target ''w'' (Some ''items.x'')). \<exists>fs fs'.
               get_path sibling_input (take i (update_struct_target ''w'' (Some ''items.x'')))
                 = Inr (Struct fs)
             \<and> get_path sibling_output (take i (update_struct_target ''w'' (Some ''items.x'')))
                 = Inr (Struct fs')
             \<and> filter (\<lambda>e. fst e \<noteq> update_struct_target ''w'' (Some ''items.x'') ! i) fs'
                 = filter (\<lambda>e. fst e \<noteq> update_struct_target ''w'' (Some ''items.x'') ! i) fs
             \<and> (\<forall>f. f \<noteq> update_struct_target ''w'' (Some ''items.x'') ! i \<longrightarrow>
                   getField (Struct fs') f = getField (Struct fs) f)"
    by blast
  then have "\<exists>fs fs'.
               get_path sibling_input (take 1 [''w'', ''items'']) = Inr (Struct fs)
             \<and> get_path sibling_output (take 1 [''w'', ''items'']) = Inr (Struct fs')
             \<and> filter (\<lambda>e. fst e \<noteq> [''w'', ''items''] ! 1) fs'
                 = filter (\<lambda>e. fst e \<noteq> [''w'', ''items''] ! 1) fs
             \<and> (\<forall>f. f \<noteq> [''w'', ''items''] ! 1 \<longrightarrow>
                   getField (Struct fs') f = getField (Struct fs) f)"
    unfolding target by (rule allE [where x = 1]) simp
  then obtain fs fs' where
    "get_path sibling_input [''w''] = Inr (Struct fs)"
    "get_path sibling_output [''w''] = Inr (Struct fs')"
    "filter (\<lambda>e. fst e \<noteq> ''items'') fs' = filter (\<lambda>e. fst e \<noteq> ''items'') fs"
    "\<forall>f. f \<noteq> ''items'' \<longrightarrow> getField (Struct fs') f = getField (Struct fs) f"
    by auto
  then have "\<exists>fs fs'. get_path sibling_input [''w''] = Inr (Struct fs)
          \<and> get_path sibling_output [''w''] = Inr (Struct fs')
          \<and> filter (\<lambda>e. fst e \<noteq> ''items'') fs' = filter (\<lambda>e. fst e \<noteq> ''items'') fs
          \<and> getField (Struct fs') ''k'' = getField (Struct fs) ''k''"
    by (intro exI [of _ fs] exI [of _ fs']) simp
  with run target root show ?thesis by blast
qed

section \<open>Termination and recursion depth\<close>

lemma map_fuel_flat:
  "(\<And>x. g x = Some (h x)) \<Longrightarrow> map_fuel g xs = Some (map_result h xs)"
proof (induction xs)
  case Nil
  show ?case by simp
next
  case (Cons x xs)
  then show ?case
    by (cases "h x"; cases "map_result h xs") auto
qed

lemma transform_fuel_flat:
  "(\<And>x. g x = Some (h x)) \<Longrightarrow> transform_fuel arr g = Some (transform arr h)"
proof (cases arr)
  case (Array xs)
  assume "\<And>x. g x = Some (h x)"
  then have "map_fuel g xs = Some (map_result h xs)" by (rule map_fuel_flat)
  with Array show ?thesis
    by (cases "map_result h xs") auto
qed auto

lemma map_fuel_sound:
  "map_fuel g xs = Some res \<Longrightarrow> (\<And>x y. g x = Some y \<Longrightarrow> h x = y) \<Longrightarrow> map_result h xs = res"
proof (induction xs arbitrary: res)
  case Nil
  then show ?case by simp
next
  case (Cons x xs)
  from Cons.prems(1) obtain y where gx: "g x = Some y"
    by (cases "g x") auto
  with Cons.prems(2) have hx: "h x = y" by blast
  show ?case
  proof (cases y)
    case (Inl e)
    with gx hx Cons.prems(1) show ?thesis by simp
  next
    case (Inr v)
    with gx Cons.prems(1) obtain z where m: "map_fuel g xs = Some z"
      and res: "then_fuel (Some z) (\<lambda>ys. Some (Inr (v # ys))) = Some res"
      by (cases "map_fuel g xs") auto
    have "map_result h xs = z"
      by (rule Cons.IH [OF m]) (rule Cons.prems(2))
    with hx Inr res show ?thesis
      by (cases z) auto
  qed
qed

lemma transform_fuel_sound:
  assumes "transform_fuel arr g = Some res" and "\<And>x y. g x = Some y \<Longrightarrow> h x = y"
  shows "transform arr h = res"
proof (cases arr)
  case (Array xs)
  with assms(1) obtain z where m: "map_fuel g xs = Some z"
    and res: "then_fuel (Some z) (\<lambda>ys. Some (Inr (Array ys))) = Some res"
    by (cases "map_fuel g xs") auto
  have "map_result h xs = z"
    by (rule map_fuel_sound [OF m]) (rule assms(2))
  with Array res show ?thesis
    by (cases z) auto
qed (use assms(1) in auto)

lemma rebuild_fuel_sound:
  assumes "then_fuel (Some (getField col f)) (\<lambda>sub. then_fuel (K sub) (\<lambda>new. Some (withField col f new)))
             = Some res"
      and "\<And>sub y. K sub = Some y \<Longrightarrow> K' sub = y"
  shows "and_then (getField col f) (\<lambda>sub. and_then (K' sub) (withField col f)) = res"
proof (cases "getField col f")
  case (Inl e)
  with assms(1) show ?thesis by auto
next
  case (Inr sub)
  with assms(1) obtain y where k: "K sub = Some y"
    and res: "then_fuel (Some y) (\<lambda>new. Some (withField col f new)) = Some res"
    by (cases "K sub") auto
  from assms(2) [OF k] have "K' sub = y" .
  with Inr res show ?thesis
    by (cases y) auto
qed

lemma update_struct_fuel_sound:
  assumes "update_struct_fuel k col p lf ap args = Some res"
      and "\<And>j c r a y. lf j c r a = Some y \<Longrightarrow> leaf c r a = y"
  shows "update_struct col p leaf ap args = res"
  using assms(1)
proof (induction k arbitrary: col p res)
  case 0
  then show ?case by simp
next
  case (Suc k)
  let ?f = "hd (split_dot p)" and ?rest = "tl (split_dot p)"
  consider (descend) "?rest \<noteq> [] \<and> ?f \<noteq> []"
    | (pre) "\<not> (?rest \<noteq> [] \<and> ?f \<noteq> [])" "?rest = [] \<and> ?f \<noteq> [] \<and> truthy ap"
    | (arr) a where "\<not> (?rest \<noteq> [] \<and> ?f \<noteq> [])"
        "\<not> (?rest = [] \<and> ?f \<noteq> [] \<and> truthy ap)" "ap = Some a"
    | (scalar) "\<not> (?rest \<noteq> [] \<and> ?f \<noteq> [])"
        "\<not> (?rest = [] \<and> ?f \<noteq> [] \<and> truthy ap)" "ap = None"
    by (cases ap) auto
  then show ?case
  proof cases
    case descend
    with Suc.prems have "then_fuel (Some (getField col ?f))
        (\<lambda>sub. then_fuel (update_struct_fuel k sub (join_dot ?rest) lf ap args)
                 (\<lambda>new. Some (withField col ?f new))) = Some res"
      by (auto simp add: Let_def length_split_le_1 length_split_gt_1)
    then have "and_then (getField col ?f)
        (\<lambda>sub. and_then (update_struct sub (join_dot ?rest) leaf ap args) (withField col ?f)) = res"
      by (rule rebuild_fuel_sound) (rule Suc.IH)
    with descend show ?thesis
      by (auto simp add: update_struct.simps [of col p] Let_def length_split_le_1
            length_split_gt_1)
  next
    case pre
    with Suc.prems have "then_fuel (Some (getField col ?f))
        (\<lambda>sub. then_fuel (update_struct_fuel k sub [] lf ap args)
                 (\<lambda>new. Some (withField col ?f new))) = Some res"
      by (auto simp add: Let_def length_split_le_1 length_split_gt_1)
    then have "and_then (getField col ?f)
        (\<lambda>sub. and_then (update_struct sub [] leaf ap args) (withField col ?f)) = res"
      by (rule rebuild_fuel_sound) (rule Suc.IH)
    with pre show ?thesis
      by (auto simp add: update_struct.simps [of col p] Let_def length_split_le_1
            length_split_gt_1)
  next
    case arr
    with Suc.prems have "then_fuel (Some (getField col (hd (split_dot a))))
        (\<lambda>arr. then_fuel
           (transform_fuel arr (\<lambda>c. lf k c (join_dot (tl (split_dot a))) args))
           (\<lambda>new. Some (withField col (hd (split_dot a)) new))) = Some res"
      by (auto simp add: Let_def length_split_le_1 length_split_gt_1)
    then have "and_then (getField col (hd (split_dot a)))
        (\<lambda>arr. and_then (transform arr (\<lambda>c. leaf c (join_dot (tl (split_dot a))) args))
                 (withField col (hd (split_dot a)))) = res"
      by (rule rebuild_fuel_sound) (rule transform_fuel_sound, assumption, rule assms(2))
    with arr show ?thesis
      by (auto simp add: update_struct.simps [of col p] Let_def length_split_le_1
            length_split_gt_1)
  next
    case scalar
    with Suc.prems have "then_fuel (Some (getField col ?f))
        (\<lambda>v. then_fuel (lf k v ?f args) (\<lambda>new. Some (withField col ?f new))) = Some res"
      by (auto simp add: Let_def length_split_le_1 length_split_gt_1)
    then have "and_then (getField col ?f)
        (\<lambda>v. and_then (leaf v ?f args) (withField col ?f)) = res"
      by (rule rebuild_fuel_sound) (rule assms(2))
    with scalar show ?thesis
      by (auto simp add: update_struct.simps [of col p] Let_def length_split_le_1
            length_split_gt_1)
  qed
qed

lemma rebuild_fuel_flat:
  assumes "\<And>sub. K sub = Some (K' sub)"
  shows "then_fuel (Some (getField col f))
           (\<lambda>sub. then_fuel (K sub) (\<lambda>new. Some (withField col f new)))
         = Some (and_then (getField col f) (\<lambda>sub. and_then (K' sub) (withField col f)))"
proof (cases "getField col f")
  case (Inl e)
  then show ?thesis by simp
next
  case (Inr sub)
  then show ?thesis
    using assms [of sub] by (cases "K' sub") auto
qed

lemma update_struct_fuel_flat:
  assumes flat: "\<And>j c r a. lf j c r a = Some (leaf c r a)"
  shows "(p = [] \<and> 0 < k) \<or> length (split_dot p) < k \<Longrightarrow>
         update_struct_fuel k col p lf ap args = Some (update_struct col p leaf ap args)"
proof (induction k arbitrary: col p)
  case 0
  then show ?case by simp
next
  case (Suc k)
  let ?f = "hd (split_dot p)" and ?rest = "tl (split_dot p)"
  consider (descend) "?rest \<noteq> [] \<and> ?f \<noteq> []"
    | (pre) "\<not> (?rest \<noteq> [] \<and> ?f \<noteq> [])" "?rest = [] \<and> ?f \<noteq> [] \<and> truthy ap"
    | (arr) a where "\<not> (?rest \<noteq> [] \<and> ?f \<noteq> [])"
        "\<not> (?rest = [] \<and> ?f \<noteq> [] \<and> truthy ap)" "ap = Some a"
    | (scalar) "\<not> (?rest \<noteq> [] \<and> ?f \<noteq> [])"
        "\<not> (?rest = [] \<and> ?f \<noteq> [] \<and> truthy ap)" "ap = None"
    by (cases ap) auto
  then show ?case
  proof cases
    case descend
    then have "p \<noteq> []" by auto
    with Suc.prems have "length (split_dot p) \<le> k" by simp
    moreover have "split_dot (join_dot ?rest) = ?rest"
      using descend by (intro split_dot_join_tl) simp
    moreover have "Suc 0 < length (split_dot p)"
      using descend by (simp add: length_split_gt_1)
    ultimately have "length (split_dot (join_dot ?rest)) < k" by simp
    then have ih: "\<And>sub. update_struct_fuel k sub (join_dot ?rest) lf ap args =
                        Some (update_struct sub (join_dot ?rest) leaf ap args)"
      by (intro Suc.IH) simp
    have "update_struct_fuel (Suc k) col p lf ap args =
          then_fuel (Some (getField col ?f))
            (\<lambda>sub. then_fuel (update_struct_fuel k sub (join_dot ?rest) lf ap args)
                     (\<lambda>new. Some (withField col ?f new)))"
      using descend by (auto simp add: Let_def length_split_le_1 length_split_gt_1)
    also have "\<dots> = Some (and_then (getField col ?f)
        (\<lambda>sub. and_then (update_struct sub (join_dot ?rest) leaf ap args) (withField col ?f)))"
      by (rule rebuild_fuel_flat) (rule ih)
    also have "\<dots> = Some (update_struct col p leaf ap args)"
      using descend
      by (auto simp add: update_struct.simps [of col p] Let_def length_split_le_1
            length_split_gt_1)
    finally show ?thesis .
  next
    case pre
    then have "p \<noteq> []" by auto
    with Suc.prems have "0 < k"
      by (cases "split_dot p") auto
    then have ih: "\<And>sub. update_struct_fuel k sub [] lf ap args =
                        Some (update_struct sub [] leaf ap args)"
      by (intro Suc.IH) simp
    have "update_struct_fuel (Suc k) col p lf ap args =
          then_fuel (Some (getField col ?f))
            (\<lambda>sub. then_fuel (update_struct_fuel k sub [] lf ap args)
                     (\<lambda>new. Some (withField col ?f new)))"
      using pre by (auto simp add: Let_def length_split_le_1 length_split_gt_1)
    also have "\<dots> = Some (and_then (getField col ?f)
        (\<lambda>sub. and_then (update_struct sub [] leaf ap args) (withField col ?f)))"
      by (rule rebuild_fuel_flat) (rule ih)
    also have "\<dots> = Some (update_struct col p leaf ap args)"
      using pre
      by (auto simp add: update_struct.simps [of col p] Let_def length_split_le_1
            length_split_gt_1)
    finally show ?thesis .
  next
    case arr
    have "update_struct_fuel (Suc k) col p lf ap args =
          then_fuel (Some (getField col (hd (split_dot a))))
            (\<lambda>arr. then_fuel
               (transform_fuel arr (\<lambda>c. lf k c (join_dot (tl (split_dot a))) args))
               (\<lambda>new. Some (withField col (hd (split_dot a)) new)))"
      using arr by (auto simp add: Let_def length_split_le_1 length_split_gt_1)
    also have "\<dots> = Some (and_then (getField col (hd (split_dot a)))
        (\<lambda>arr. and_then (transform arr (\<lambda>c. leaf c (join_dot (tl (split_dot a))) args))
                 (withField col (hd (split_dot a)))))"
      by (rule rebuild_fuel_flat) (rule transform_fuel_flat, rule flat)
    also have "\<dots> = Some (update_struct col p leaf ap args)"
      using arr
      by (auto simp add: update_struct.simps [of col p] Let_def length_split_le_1
            length_split_gt_1)
    finally show ?thesis .
  next
    case scalar
    have "update_struct_fuel (Suc k) col p lf ap args =
          then_fuel (Some (getField col ?f))
            (\<lambda>v. then_fuel (lf k v ?f args) (\<lambda>new. Some (withField col ?f new)))"
      using scalar by (auto simp add: Let_def length_split_le_1 length_split_gt_1)
    also have "\<dots> = Some (and_then (getField col ?f)
        (\<lambda>v. and_then (leaf v ?f args) (withField col ?f)))"
      by (rule rebuild_fuel_flat) (rule flat)
    also have "\<dots> = Some (update_struct col p leaf ap args)"
      using scalar
      by (auto simp add: update_struct.simps [of col p] Let_def length_split_le_1
            length_split_gt_1)
    finally show ?thesis .
  qed
qed

text \<open>
  The bound is reached: on the path \<open>a.b\<close> with an array path, two frames are not enough.
\<close>

lemma update_struct_fuel_bound_tight:
  "length (split_dot ''a.b'') = 2
   \<and> update_struct_fuel 2
        (Struct [(''a'', Struct [(''b'', Struct [(''items'', Array [int_val 1, int_val 2])])])])
        ''a.b'' flat_increment (Some ''items'') () = None"
  by (simp add: numeral_2_eq_2)

lemma update_struct_fuel_terminal:
  assumes flat: "\<And>j c r a. lf j c r a = Some (leaf c r a)"
      and "\<not> (tl (split_dot p) \<noteq> [] \<and> hd (split_dot p) \<noteq> [])"
      and "\<not> (tl (split_dot p) = [] \<and> hd (split_dot p) \<noteq> [] \<and> truthy ap)"
  shows "update_struct_fuel (Suc 0) col p lf ap args = Some (update_struct col p leaf ap args)"
proof (cases ap)
  case None
  have "update_struct_fuel (Suc 0) col p lf ap args =
        then_fuel (Some (getField col (hd (split_dot p))))
          (\<lambda>v. then_fuel (lf 0 v (hd (split_dot p)) args)
                 (\<lambda>new. Some (withField col (hd (split_dot p)) new)))"
    using assms(2,3) None by (auto simp add: Let_def length_split_le_1 length_split_gt_1)
  also have "\<dots> = Some (and_then (getField col (hd (split_dot p)))
      (\<lambda>v. and_then (leaf v (hd (split_dot p)) args) (withField col (hd (split_dot p)))))"
    by (rule rebuild_fuel_flat) (rule flat)
  also have "\<dots> = Some (update_struct col p leaf ap args)"
    using assms(2,3) None
    by (auto simp add: update_struct.simps [of col p] Let_def length_split_le_1
          length_split_gt_1)
  finally show ?thesis .
next
  case (Some a)
  have "update_struct_fuel (Suc 0) col p lf ap args =
        then_fuel (Some (getField col (hd (split_dot a))))
          (\<lambda>arr. then_fuel
             (transform_fuel arr (\<lambda>c. lf 0 c (join_dot (tl (split_dot a))) args))
             (\<lambda>new. Some (withField col (hd (split_dot a)) new)))"
    using assms(2,3) Some by (auto simp add: Let_def length_split_le_1 length_split_gt_1)
  also have "\<dots> = Some (and_then (getField col (hd (split_dot a)))
      (\<lambda>arr. and_then (transform arr (\<lambda>c. leaf c (join_dot (tl (split_dot a))) args))
               (withField col (hd (split_dot a)))))"
    by (rule rebuild_fuel_flat) (rule transform_fuel_flat, rule flat)
  also have "\<dots> = Some (update_struct col p leaf ap args)"
    using assms(2,3) Some
    by (auto simp add: update_struct.simps [of col p] Let_def length_split_le_1
          length_split_gt_1)
  finally show ?thesis .
qed

lemma update_struct_total: "update_struct_dom (col, p, leaf, ap, args)"
proof -
  have "All (update_struct_dom :: (val \<times> string \<times> 'a leaf \<times> string option \<times> 'a) \<Rightarrow> bool)"
    by (relation "measure (\<lambda>(col, remaining, struct_func, array_path, args). length remaining)")
       (auto simp: length_join_tl_split' dest: hd_split_nonempty)
  then show ?thesis by blast
qed

lemma struct_repl_fuel_sound:
  assumes "struct_repl_fuel conv k col r args = Some res"
  shows "struct_repl conv col r args = res"
proof -
  from assms have "then_fuel (Some (getField col (hd (split_dot r))))
      (\<lambda>sub. then_fuel
         (update_struct_fuel k sub (join_dot (tl (split_dot r))) (group_to_primitive_fuel conv)
            None args)
         (\<lambda>new. Some (withField col (hd (split_dot r)) new))) = Some res"
    by (simp add: struct_repl_fuel_def Let_def)
  then have "and_then (getField col (hd (split_dot r)))
      (\<lambda>sub. and_then
         (update_struct sub (join_dot (tl (split_dot r))) (group_to_primitive conv) None args)
         (withField col (hd (split_dot r)))) = res"
    by (rule rebuild_fuel_sound)
       (rule update_struct_fuel_sound, assumption, simp add: group_to_primitive_fuel_def)
  then show ?thesis
    by (simp add: struct_repl_def Let_def)
qed

text \<open>
  With \<^verbatim>\<open>struct_repl\<close> as the leaf, the terminal array state calls \<^verbatim>\<open>update_struct\<close>
  again through the leaf: on the empty dotted path (one segment, as the split gives it)
  and the array path \<open>items.a.b.value\<close> two frames are not enough and three are. In the
  pre-terminal state the recursive call gets the empty string, whose split has one
  segment, as many as the single segment it came from.
\<close>

theorem update_struct_recursion_depth_counterexample:
  "length (split_dot []) + 1 = 2
   \<and> update_struct_fuel 1 nested_drift_input []
        (struct_repl_fuel (\<lambda>t s. s)) (Some ''items.a.b.value'') [''int'', ''string''] = None
   \<and> update_struct_fuel 2 nested_drift_input []
        (struct_repl_fuel (\<lambda>t s. s)) (Some ''items.a.b.value'') [''int'', ''string''] = None
   \<and> update_struct_fuel 3 nested_drift_input []
        (struct_repl_fuel (\<lambda>t s. s)) (Some ''items.a.b.value'') [''int'', ''string'']
      = Some (Inr nested_drift_output)
   \<and> update_struct nested_drift_input []
        (struct_repl (\<lambda>t s. s)) (Some ''items.a.b.value'') [''int'', ''string'']
      = Inr nested_drift_output
   \<and> tl (split_dot ''a'') = [] \<and> hd (split_dot ''a'') \<noteq> [] \<and> truthy (Some ''x'')
   \<and> \<not> length (split_dot []) < length (split_dot ''a'')"
  by (simp add: numeral_2_eq_2 numeral_3_eq_3 update_struct.simps struct_repl_def
        struct_repl_fuel_def group_to_primitive_fuel_def group_to_primitive_def
        nested_drift_input_def nested_drift_output_def Let_def)

text \<open>
  C9 (amended). \<open>update_struct\<close> terminates on every input (every argument is in the
  domain of its recursion; the leaf is a total function). In the descend state the
  recursive call gets the path without its head segment: the remaining string is strictly
  shorter and has fewer segments. In the pre-terminal state the recursive call gets the
  empty string, which is strictly shorter. In the terminal states \<open>update_struct\<close> does
  not call itself: with a leaf that takes no frame, one frame is enough. With such a leaf
  the whole traversal of a path of \<open>n\<close> segments (the pieces of the split, so the empty
  path has one) completes within \<open>n + 1\<close> frames. Whatever the leaf and the budget, a
  traversal that completes within the budget returns what \<open>update_struct\<close> returns.
\<close>

theorem update_struct_terminates_within_path_length:
  "update_struct_dom (col, p, leaf, ap, args)
   \<and> (tl (split_dot p) \<noteq> [] \<and> hd (split_dot p) \<noteq> [] \<longrightarrow>
        update_struct col p leaf ap args =
          and_then (getField col (hd (split_dot p)))
            (\<lambda>sub. and_then
               (update_struct sub (join_dot (tl (split_dot p))) leaf ap args)
               (withField col (hd (split_dot p))))
        \<and> length (join_dot (tl (split_dot p))) < length p
        \<and> length (split_dot (join_dot (tl (split_dot p)))) < length (split_dot p))
   \<and> (tl (split_dot p) = [] \<and> hd (split_dot p) \<noteq> [] \<and> truthy ap \<longrightarrow>
        update_struct col p leaf ap args =
          and_then (getField col (hd (split_dot p)))
            (\<lambda>sub. and_then
               (update_struct sub [] leaf ap args)
               (withField col (hd (split_dot p))))
        \<and> length ([] :: string) < length p)
   \<and> (\<not> (tl (split_dot p) \<noteq> [] \<and> hd (split_dot p) \<noteq> [])
        \<and> \<not> (tl (split_dot p) = [] \<and> hd (split_dot p) \<noteq> [] \<and> truthy ap)
        \<and> (\<forall>j c r a. lf j c r a = Some (leaf c r a)) \<longrightarrow>
        update_struct_fuel (Suc 0) col p lf ap args = Some (update_struct col p leaf ap args))
   \<and> ((\<forall>j c r a. lf j c r a = Some (leaf c r a)) \<and> length (split_dot p) + 1 \<le> k \<longrightarrow>
        update_struct_fuel k col p lf ap args = Some (update_struct col p leaf ap args))
   \<and> (\<forall>res. (\<forall>j c r a y. lf j c r a = Some y \<longrightarrow> leaf c r a = y)
          \<and> update_struct_fuel k col p lf ap args = Some res \<longrightarrow>
        update_struct col p leaf ap args = res)"
proof (intro conjI impI allI)
  show "update_struct_dom (col, p, leaf, ap, args)"
    by (rule update_struct_total)
next
  assume "tl (split_dot p) \<noteq> [] \<and> hd (split_dot p) \<noteq> []"
  then show "update_struct col p leaf ap args =
          and_then (getField col (hd (split_dot p)))
            (\<lambda>sub. and_then
               (update_struct sub (join_dot (tl (split_dot p))) leaf ap args)
               (withField col (hd (split_dot p))))"
    by (auto simp add: update_struct.simps [of col p] Let_def length_split_le_1
          length_split_gt_1)
next
  assume "tl (split_dot p) \<noteq> [] \<and> hd (split_dot p) \<noteq> []"
  then show "length (join_dot (tl (split_dot p))) < length p"
    by (intro length_join_tl_split) simp
next
  assume a: "tl (split_dot p) \<noteq> [] \<and> hd (split_dot p) \<noteq> []"
  then have "split_dot (join_dot (tl (split_dot p))) = tl (split_dot p)"
    by (intro split_dot_join_tl) simp
  moreover have "Suc 0 < length (split_dot p)"
    using a by (simp add: length_split_gt_1)
  ultimately show "length (split_dot (join_dot (tl (split_dot p)))) < length (split_dot p)"
    by simp
next
  assume "tl (split_dot p) = [] \<and> hd (split_dot p) \<noteq> [] \<and> truthy ap"
  then show "update_struct col p leaf ap args =
          and_then (getField col (hd (split_dot p)))
            (\<lambda>sub. and_then
               (update_struct sub [] leaf ap args)
               (withField col (hd (split_dot p))))"
    by (auto simp add: update_struct.simps [of col p] Let_def length_split_le_1
          length_split_gt_1)
next
  assume "tl (split_dot p) = [] \<and> hd (split_dot p) \<noteq> [] \<and> truthy ap"
  then have "p \<noteq> []" by auto
  then show "length ([] :: string) < length p" by simp
next
  assume "\<not> (tl (split_dot p) \<noteq> [] \<and> hd (split_dot p) \<noteq> [])
        \<and> \<not> (tl (split_dot p) = [] \<and> hd (split_dot p) \<noteq> [] \<and> truthy ap)
        \<and> (\<forall>j c r a. lf j c r a = Some (leaf c r a))"
  then show "update_struct_fuel (Suc 0) col p lf ap args = Some (update_struct col p leaf ap args)"
    by (intro update_struct_fuel_terminal) blast+
next
  assume "(\<forall>j c r a. lf j c r a = Some (leaf c r a)) \<and> length (split_dot p) + 1 \<le> k"
  then show "update_struct_fuel k col p lf ap args = Some (update_struct col p leaf ap args)"
    by (intro update_struct_fuel_flat) auto
next
  fix res
  assume "(\<forall>j c r a y. lf j c r a = Some y \<longrightarrow> leaf c r a = y)
          \<and> update_struct_fuel k col p lf ap args = Some res"
  then show "update_struct col p leaf ap args = res"
    by (intro update_struct_fuel_sound [of k col p lf ap args res leaf]) blast+
qed

theorem update_struct_terminates_within_path_length_witness:
  "length ''b'' < length ''a.b''
   \<and> length (split_dot ''b'') < length (split_dot ''a.b'')
   \<and> length ([] :: string) < length ''b''
   \<and> update_struct_fuel (Suc 0) (Struct [(''items'', Array [int_val 1, int_val 2])]) []
        flat_increment (Some ''items'') ()
      = Some (Inr (Struct [(''items'', Array [int_val 2, int_val 3])]))
   \<and> update_struct_fuel 3
        (Struct [(''a'', Struct [(''b'', Struct [(''items'', Array [int_val 1, int_val 2])])])])
        ''a.b'' flat_increment (Some ''items'') ()
      = Some (Inr
        (Struct [(''a'', Struct [(''b'', Struct [(''items'', Array [int_val 2, int_val 3])])])]))"
proof -
  note t = update_struct_terminates_within_path_length
  have flat: "\<forall>j c r a. flat_increment j c r a = Some (increment_by_one c r a)"
    by (simp add: flat_increment_def)
  have d: "tl (split_dot ''a.b'') \<noteq> [] \<and> hd (split_dot ''a.b'') \<noteq> []" by simp
  have j: "join_dot (tl (split_dot ''a.b'')) = ''b''" by simp
  from t [of "Null []" "''a.b''" increment_by_one "Some ''items''" "()"] d
  have 1: "length (join_dot (tl (split_dot ''a.b''))) < length ''a.b''"
    and 2: "length (split_dot (join_dot (tl (split_dot ''a.b'')))) < length (split_dot ''a.b'')"
    by blast+
  have pt: "tl (split_dot ''b'') = [] \<and> hd (split_dot ''b'') \<noteq> [] \<and> truthy (Some ''items'')"
    by simp
  from t [of "Null []" "''b''" increment_by_one "Some ''items''" "()"] pt
  have 3: "length ([] :: string) < length ''b''"
    by blast
  have tm: "\<not> (tl (split_dot []) \<noteq> [] \<and> hd (split_dot []) \<noteq> [])
        \<and> \<not> (tl (split_dot []) = [] \<and> hd (split_dot []) \<noteq> [] \<and> truthy (Some ''items''))
        \<and> (\<forall>j c r a. flat_increment j c r a = Some (increment_by_one c r a))"
    using flat by simp
  from t [of "Struct [(''items'', Array [int_val 1, int_val 2])]" "[]" increment_by_one
            "Some ''items''" "()" flat_increment] tm
  have "update_struct_fuel (Suc 0) (Struct [(''items'', Array [int_val 1, int_val 2])]) []
          flat_increment (Some ''items'') ()
        = Some (update_struct (Struct [(''items'', Array [int_val 1, int_val 2])]) []
                  increment_by_one (Some ''items'') ())"
    by blast
  then have 4: "update_struct_fuel (Suc 0) (Struct [(''items'', Array [int_val 1, int_val 2])]) []
        flat_increment (Some ''items'') ()
      = Some (Inr (Struct [(''items'', Array [int_val 2, int_val 3])]))"
    by (simp add: update_struct.simps scenario_defs)
  have b: "(\<forall>j c r a. flat_increment j c r a = Some (increment_by_one c r a))
           \<and> length (split_dot ''a.b'') + 1 \<le> 3"
    using flat by simp
  from t [of "Struct [(''a'', Struct [(''b'', Struct [(''items'', Array [int_val 1, int_val 2])])])]"
            "''a.b''" increment_by_one "Some ''items''" "()" flat_increment 3] b
  have "update_struct_fuel 3
        (Struct [(''a'', Struct [(''b'', Struct [(''items'', Array [int_val 1, int_val 2])])])])
        ''a.b'' flat_increment (Some ''items'') ()
      = Some (update_struct
          (Struct [(''a'', Struct [(''b'', Struct [(''items'', Array [int_val 1, int_val 2])])])])
          ''a.b'' increment_by_one (Some ''items'') ())"
    by blast
  then have 5: "update_struct_fuel 3
        (Struct [(''a'', Struct [(''b'', Struct [(''items'', Array [int_val 1, int_val 2])])])])
        ''a.b'' flat_increment (Some ''items'') ()
      = Some (Inr
        (Struct [(''a'', Struct [(''b'', Struct [(''items'', Array [int_val 2, int_val 3])])])]))"
    by (simp add: update_struct.simps scenario_defs)
  from 1 2 3 4 5 j show ?thesis by simp
qed

section \<open>Drift repair\<close>

text \<open>
  Scenario C of the specification: the two-typed struct in the field \<open>value\<close> becomes one
  primitive of the first type. The second lemma is the same repair inside every element
  of an array, through \<open>struct_repl\<close> and the array path.
\<close>

lemma scenario_c_drift_repair:
  "update_struct
     (Struct [(''value'', Struct [(''type_1'', Prim ''type_1'' (SStr ''5'')),
                                  (''type_2'', Null ''type_2'')])])
     ''value'' (group_to_primitive conv) None [''type_1'', ''type_2'']
   = Inr (Struct [(''value'', Prim ''type_1'' (conv ''type_1'' (SStr ''5'')))])"
  by (simp add: update_struct.simps group_to_primitive_def)

lemma struct_repl_in_array:
  "update_struct
     (Struct [(''items'', Array
        [Struct [(''a'', Struct [(''value'',
           Struct [(''int'', Null ''int''), (''string'', Prim ''string'' (SStr ''x''))])])]])])
     [] (struct_repl conv) (Some ''items.a.value'') [''int'', ''string'']
   = Inr (Struct [(''items'', Array
        [Struct [(''a'', Struct [(''value'', Prim ''int'' (conv ''int'' (SStr ''x'')))])]])])"
  by (simp add: update_struct.simps group_to_primitive_def struct_repl_def Let_def)

section \<open>Independence of the unused argument\<close>

text \<open>
  C10. The result of \<open>group_to_primitive\<close> does not depend on its \<open>remaining\<close> argument:
  any two remaining-path strings give the same result for the same column and type tags.
\<close>

theorem group_to_primitive_remaining_irrelevant:
  "group_to_primitive conv col r1 types = group_to_primitive conv col r2 types"
  by (simp add: group_to_primitive_def)

end
